theory Spec2Isabelle
  imports Main "HOL-Library.Word"
begin

unbundle bit_operations_syntax

section \<open>Bytes, failures and Go slice primitives\<close>

type_synonym byte = "8 word"

text \<open>
  A Go function of this library ends in one of three ways: it returns a value, it returns a
  non-nil \<open>error\<close> value, or it panics at run time (index out of range, slice bounds out of
  range, explicit \<open>panic\<close>). The last two are kept apart: \<open>Panic\<close> is the run-time fault,
  \<open>Error e\<close> the error value handed to the caller.
\<close>

datatype error =
    SaltTooShort              \<comment> \<open>"salt encrypted attribute too short"\<close>
  | TunnelPasswordTooLong     \<comment> \<open>"Tunnel Password is too long (shared secret might be wrong)"\<close>
  | ParseUintError            \<comment> \<open>the error of strconv.ParseUint\<close>
  | SubnetTooBig nat          \<comment> \<open>"IPv4 Subnet must be no greater than 32, you provided %d"\<close>
  | InvalidTypeCode           \<comment> \<open>"Invalid TypeCode"\<close>
  | AttributeNotFound byte    \<comment> \<open>"attribute with ID: %d is not found in dictionary"\<close>
  | MsgAuthNotFound           \<comment> \<open>"Message-Authenticator attribute not found in packet"\<close>
  | ToBytesFailed             \<comment> \<open>"failed to convert RadiusPacket to bytes"\<close>
  | MsgAuthMismatch           \<comment> \<open>"Packet Message-Authenticator mismatch"\<close>
  | OpenError                 \<comment> \<open>the error of os.Open\<close>
  | ScanError                 \<comment> \<open>the error of bufio.Scanner.Err\<close>

datatype failure = Panic | Error error

text \<open>
  The builtin \<open>copy(dst, src)\<close> overwrites the first \<open>min (len dst) (len src)\<close> cells of
  \<open>dst\<close>; the function returns the new contents of \<open>dst\<close>.
\<close>

definition go_copy :: "'a list \<Rightarrow> 'a list \<Rightarrow> 'a list" where
  "go_copy dst src = take (length dst) src @ drop (length src) dst"

lemma length_go_copy [simp]: "length (go_copy dst src) = length dst"
  by (simp add: go_copy_def)

text \<open>
  A slice expression \<open>s[lo:hi]\<close> on a slice is checked against the capacity of \<open>s\<close>, not
  its length. \<open>spare\<close> holds the cells of the backing array between length and capacity.
\<close>

definition go_slice :: "'a list \<Rightarrow> 'a list \<Rightarrow> nat \<Rightarrow> nat \<Rightarrow> failure + 'a list" where
  "go_slice s spare lo hi =
     (if lo \<le> hi \<and> hi \<le> length s + length spare
      then Inr (take (hi - lo) (drop lo (s @ spare)))
      else Inl Panic)"

section \<open>tools: User-Password and Tunnel-Password obscuring\<close>

text \<open>
  \<open>crypto/md5\<close> belongs to the Go standard library. The digest is a parameter \<open>md5\<close> of
  every function that hashes; \<open>md5 (secret @ block)\<close> stands for
  \<open>h := md5.New(); h.Write(secret); h.Write(block); h.Sum(nil)\<close>.
  The only fact about MD5 the theorems use is that a digest has 16 bytes.
\<close>

definition digest16 :: "(byte list \<Rightarrow> byte list) \<Rightarrow> bool" where
  "digest16 md5 = (\<forall>x. length (md5 x) = 16)"

text \<open>
  \<open>encryptHelper(output, data, authenticator, hash, secret)\<close>: the loop with its local
  variables \<open>tmp\<close> and \<open>iteration\<close> as arguments; the result is the final \<open>*output\<close>.
  \<open>(*data)[i] ^= (*hash)[i]\<close> faults when \<open>data\<close> is shorter than \<open>hash\<close>,
  \<open>(*data)[16:]\<close> when fewer than 16 bytes are left.
\<close>

function encryptHelper ::
  "(byte list \<Rightarrow> byte list) \<Rightarrow> byte list \<Rightarrow> byte list \<Rightarrow> nat \<Rightarrow> byte list \<Rightarrow> byte list
     \<Rightarrow> byte list \<Rightarrow> byte list \<Rightarrow> failure + byte list" where
  "encryptHelper md5 secret authenticator iteration tmp hash data output =
     (let hash1 = go_copy hash (md5 (secret @ (if iteration = 1 then authenticator else tmp)))
      in if length data < length hash1 \<or> length data < 16 then Inl Panic
         else
           let data1 = map2 (XOR) (take (length hash1) data) hash1 @ drop (length hash1) data;
               output1 = output @ take 16 data1;
               tmp1 = go_copy tmp (take 16 data1);
               data2 = (if length data1 = 16 then [] else drop 16 data1)
           in if length data2 = 0 then Inr output1
              else encryptHelper md5 secret authenticator (iteration + 1) tmp1 hash1 data2 output1)"
  by pat_completeness auto
termination
  by (relation "measure (\<lambda>(md5, secret, authenticator, iteration, tmp, hash, data, output). length data)")
     (auto simp: Let_def)

declare encryptHelper.simps [simp del]

definition EncryptData ::
  "(byte list \<Rightarrow> byte list) \<Rightarrow> byte list \<Rightarrow> byte list \<Rightarrow> byte list \<Rightarrow> failure + byte list" where
  "EncryptData md5 data authenticator secret =
     (let hash = replicate 16 0;
          padding = 16 - length data mod 16;
          initialData = data @ take padding hash
      in encryptHelper md5 secret authenticator 1 (replicate 16 0) hash initialData [])"

text \<open>
  The first loop of \<open>DecryptData\<close>. \<open>hash\<close> has 16 cells; \<open>hash[i] ^= (*data)[i]\<close> for
  \<open>i < 16\<close> faults when fewer than 16 bytes of \<open>data\<close> are left.
\<close>

function decryptLoop ::
  "(byte list \<Rightarrow> byte list) \<Rightarrow> byte list \<Rightarrow> byte list \<Rightarrow> byte list \<Rightarrow> byte list \<Rightarrow> byte list
     \<Rightarrow> failure + byte list" where
  "decryptLoop md5 secret prevResult hash data result =
     (let hash1 = go_copy hash (md5 (secret @ prevResult))
      in if length data < length hash1 \<or> length data < 16 then Inl Panic
         else
           let hash2 = map2 (XOR) hash1 (take (length hash1) data);
               result1 = result @ hash2;
               prevResult1 = go_copy prevResult (take 16 data);
               data1 = drop 16 data
           in if length data1 = 0 then Inr result1
              else decryptLoop md5 secret prevResult1 hash2 data1 result1)"
  by pat_completeness auto
termination
  by (relation "measure (\<lambda>(md5, secret, prevResult, hash, data, result). length data)") auto

declare decryptLoop.simps [simp del]

text \<open>
  The second loop of \<open>DecryptData\<close> pops zero bytes from the end;
  \<open>result[len(result) - 1]\<close> on an empty \<open>result\<close> is index \<open>-1\<close>, a run-time panic.
\<close>

function stripZeros :: "byte list \<Rightarrow> failure + byte list" where
  "stripZeros result =
     (if result = [] then Inl Panic
      else if last result = 0 then stripZeros (butlast result)
      else Inr result)"
  by pat_completeness auto
termination
  by (relation "measure length") auto

declare stripZeros.simps [simp del]

definition decryptChain ::
  "(byte list \<Rightarrow> byte list) \<Rightarrow> byte list \<Rightarrow> byte list \<Rightarrow> byte list \<Rightarrow> failure + byte list" where
  "decryptChain md5 data authenticator secret =
     decryptLoop md5 secret (go_copy (replicate 16 0) authenticator) (replicate 16 0) data []"

definition DecryptData ::
  "(byte list \<Rightarrow> byte list) \<Rightarrow> byte list \<Rightarrow> byte list \<Rightarrow> byte list \<Rightarrow> failure + byte list" where
  "DecryptData md5 data authenticator secret =
     (case decryptChain md5 data authenticator secret of
        Inl e \<Rightarrow> Inl e
      | Inr result \<Rightarrow> stripZeros result)"

text \<open>
  The loop of \<open>SaltDecryptData\<close>. It differs from the loop of \<open>DecryptData\<close> in
  \<open>prevResult = (*data)[:16]\<close>, an assignment: \<open>prevResult\<close> has 18 bytes in the first
  round and 16 afterwards.
\<close>

function saltDecryptLoop ::
  "(byte list \<Rightarrow> byte list) \<Rightarrow> byte list \<Rightarrow> byte list \<Rightarrow> byte list \<Rightarrow> byte list \<Rightarrow> byte list
     \<Rightarrow> failure + byte list" where
  "saltDecryptLoop md5 secret prevResult hash data result =
     (let hash1 = go_copy hash (md5 (secret @ prevResult))
      in if length data < length hash1 \<or> length data < 16 then Inl Panic
         else
           let hash2 = map2 (XOR) hash1 (take (length hash1) data);
               result1 = result @ hash2;
               prevResult1 = take 16 data;
               data1 = drop 16 data
           in if length data1 = 0 then Inr result1
              else saltDecryptLoop md5 secret prevResult1 hash2 data1 result1)"
  by pat_completeness auto
termination
  by (relation "measure (\<lambda>(md5, secret, prevResult, hash, data, result). length data)") auto

declare saltDecryptLoop.simps [simp del]

text \<open>
  \<open>SaltDecryptData(data, authenticator, secret)\<close>. \<open>initialLen\<close> is \<open>uint8(len(*data))\<close>,
  the length modulo 256. \<open>(*authenticator)[:16]\<close> is checked against the capacity of
  \<open>authenticator\<close> (\<open>authSpare\<close> are the cells between its length and its capacity).
  Past the two length tests \<open>data\<close> has at least 18 bytes, so \<open>(*data)[:2]\<close> and
  \<open>(*data)[2:]\<close> are in range; \<open>result[0]\<close> and \<open>result[1:]\<close> read a result of at least
  16 bytes, and \<open>result[:targetLen]\<close> stays within the length of \<open>result\<close> once
  \<open>targetLen \<le> initialLen - 3\<close> (lemma \<open>SaltDecryptData_take_in_range\<close>).
\<close>

definition SaltDecryptData ::
  "(byte list \<Rightarrow> byte list) \<Rightarrow> byte list \<Rightarrow> byte list \<Rightarrow> byte list \<Rightarrow> byte list
     \<Rightarrow> failure + byte list" where
  "SaltDecryptData md5 data authenticator authSpare secret =
     (let initialLen = (of_nat (length data) :: byte)
      in if initialLen \<le> 1 then Inl (Error SaltTooShort)
         else if initialLen \<le> 17 then Inr []
         else
           case go_slice authenticator authSpare 0 16 of
             Inl e \<Rightarrow> Inl e
           | Inr auth16 \<Rightarrow>
               let prevResult = go_copy (replicate 16 0) auth16 @ go_copy (replicate 2 0) (take 2 data);
                   data1 = drop 2 data
               in case saltDecryptLoop md5 secret prevResult (replicate 16 0) data1 [] of
                    Inl e \<Rightarrow> Inl e
                  | Inr result \<Rightarrow>
                      let targetLen = hd result; result1 = tl result
                      in if targetLen > initialLen - 3 then Inl (Error TunnelPasswordTooLong)
                         else Inr (take (unat targetLen) result1))"

section \<open>The obscuring schemes in the words of the specification\<close>

text \<open>
  User-Password: \<open>b\<^sub>1 = MD5(S || A)\<close>, \<open>c\<^sub>1 = P\<^sub>1 \<oplus> b\<^sub>1\<close>; for \<open>i > 1\<close>:
  \<open>b\<^sub>i = MD5(S || c\<^sub>i\<^sub>-\<^sub>1)\<close>, \<open>c\<^sub>i = P\<^sub>i \<oplus> b\<^sub>i\<close>, over 16-byte blocks. Decryption computes
  \<open>b\<^sub>i\<close> from the previous ciphertext block and \<open>P\<^sub>i = c\<^sub>i \<oplus> b\<^sub>i\<close>.
\<close>

function specEncryptChain ::
  "(byte list \<Rightarrow> byte list) \<Rightarrow> byte list \<Rightarrow> byte list \<Rightarrow> byte list \<Rightarrow> byte list" where
  "specEncryptChain md5 secret prev plain =
     (if length plain < 16 then []
      else let c = map2 (XOR) (take 16 plain) (md5 (secret @ prev))
           in c @ specEncryptChain md5 secret c (drop 16 plain))"
  by pat_completeness auto
termination
  by (relation "measure (\<lambda>(md5, secret, prev, plain). length plain)") auto

function specDecryptChain ::
  "(byte list \<Rightarrow> byte list) \<Rightarrow> byte list \<Rightarrow> byte list \<Rightarrow> byte list \<Rightarrow> byte list" where
  "specDecryptChain md5 secret prev cipher =
     (if length cipher < 16 then []
      else map2 (XOR) (take 16 cipher) (md5 (secret @ prev))
           @ specDecryptChain md5 secret (take 16 cipher) (drop 16 cipher))"
  by pat_completeness auto
termination
  by (relation "measure (\<lambda>(md5, secret, prev, cipher). length cipher)") auto

declare specEncryptChain.simps [simp del] specDecryptChain.simps [simp del]

text \<open>The padded length of the specification: \<open>n = \<lceil>|P|/16\<rceil> \<cdot> 16\<close>.\<close>

definition specPaddedLength :: "nat \<Rightarrow> nat" where
  "specPaddedLength n = ((n + 15) div 16) * 16"

text \<open>
  Tunnel-Password decrypt in the words of the specification: the leading 2 bytes are the
  salt, the inverse chain starts from \<open>A || salt\<close>, the first recovered byte is the declared
  length \<open>L\<close>, the next \<open>L\<close> bytes are returned, and the call fails when \<open>L\<close> exceeds the
  input length minus 3.
\<close>

definition specSaltDecrypt ::
  "(byte list \<Rightarrow> byte list) \<Rightarrow> byte list \<Rightarrow> byte list \<Rightarrow> byte list \<Rightarrow> failure + byte list" where
  "specSaltDecrypt md5 data authenticator secret =
     (let salt = take 2 data;
          plain = specDecryptChain md5 secret (authenticator @ salt) (drop 2 data);
          L = unat (hd plain)
      in if L > length data - 3 then Inl (Error TunnelPasswordTooLong)
         else Inr (take L (tl plain)))"

text \<open>
  A digest of 16 bytes that depends on its input, to run the definitions on concrete
  inputs. It is not MD5.
\<close>

definition sampleDigest :: "byte list \<Rightarrow> byte list" where
  "sampleDigest xs = map (\<lambda>i. sum_list xs + of_nat (length xs) + of_nat i) [0..<16]"

section \<open>tools: address strings\<close>

text \<open>
  \<open>strings.Split(s, "/")\<close>: the pieces of \<open>s\<close> between the separators; one piece more than
  there are separators, so the result is never empty.
\<close>

fun Split :: "char \<Rightarrow> string \<Rightarrow> string list" where
  "Split sep [] = [[]]"
| "Split sep (c # cs) =
     (if c = sep then [] # Split sep cs
      else (case Split sep cs of
              [] \<Rightarrow> [[c]]
            | w # ws \<Rightarrow> (c # w) # ws))"

text \<open>
  \<open>strconv.ParseUint(s, 10, 8)\<close>: a non-empty string of decimal digits (no sign, no
  underscore) whose value is at most 255; any other string is an error.
\<close>

definition isDigit :: "char \<Rightarrow> bool" where
  "isDigit c = (48 \<le> (of_char c :: nat) \<and> (of_char c :: nat) \<le> 57)"

definition digitsValue :: "string \<Rightarrow> nat" where
  "digitsValue s = foldl (\<lambda>n c. 10 * n + ((of_char c :: nat) - 48)) 0 s"

definition ParseUint8 :: "string \<Rightarrow> nat option" where
  "ParseUint8 s =
     (if s = [] \<or> \<not> list_all isDigit s then None
      else if digitsValue s > 255 then None
      else Some (digitsValue s))"

text \<open>
  \<open>net.ParseIP\<close> belongs to the standard library and is a parameter \<open>parseIP\<close>:
  \<open>None\<close> is the \<open>nil\<close> it returns for a string that is not an address, \<open>Some ip\<close> the
  16-byte form otherwise. \<open>net.ParseIP(s)[12:]\<close> on \<open>nil\<close> is a slice expression out of
  range, a run-time panic.
\<close>

definition IPv6StringToBytes :: "(string \<Rightarrow> byte list option) \<Rightarrow> string \<Rightarrow> failure + byte list" where
  "IPv6StringToBytes parseIP ipv6 =
     (let processedIPv6 = Split (CHR ''/'') ipv6;
          tail = (case parseIP (processedIPv6 ! 0) of None \<Rightarrow> [] | Some ip \<Rightarrow> ip)
      in if length processedIPv6 = 2
         then (case ParseUint8 (processedIPv6 ! 1) of
                 None \<Rightarrow> Inl (Error ParseUintError)
               | Some v \<Rightarrow> Inr ([0, of_nat v] @ tail))
         else Inr tail)"

definition IPv4StringToBytes :: "(string \<Rightarrow> byte list option) \<Rightarrow> string \<Rightarrow> failure + byte list" where
  "IPv4StringToBytes parseIP ipv4 =
     (let processedIPv4 = Split (CHR ''/'') ipv4;
          tail = (case parseIP (processedIPv4 ! 0) of
                    None \<Rightarrow> Inl Panic
                  | Some ip \<Rightarrow> if length ip < 12 then Inl Panic else Inr (drop 12 ip))
      in if length processedIPv4 = 2
         then (case ParseUint8 (processedIPv4 ! 1) of
                 None \<Rightarrow> Inl (Error ParseUintError)
               | Some v \<Rightarrow>
                   if v > 32 then Inl (Error (SubnetTooBig v))
                   else (case tail of Inl e \<Rightarrow> Inl e | Inr t \<Rightarrow> Inr ([0, of_nat v] @ t)))
         else tail)"

text \<open>
  A stand-in for \<open>net.ParseIP\<close> to run the definitions: dotted-decimal IPv4 only (four
  fields that \<open>ParseUint8\<close> accepts), in the 16-byte form; \<open>None\<close> for every other string.
\<close>

definition sampleParseIP :: "string \<Rightarrow> byte list option" where
  "sampleParseIP s =
     (let fs = map ParseUint8 (Split (CHR ''.'') s)
      in if length fs = 4 \<and> list_all (\<lambda>f. f \<noteq> None) fs
         then Some (replicate 10 0 @ [255, 255] @ map (\<lambda>f. of_nat (the f)) fs)
         else None)"

section \<open>tools: integers and timestamps\<close>

text \<open>\<open>binary.BigEndian.Uint32\<close> and \<open>Uint64\<close>: the bytes, most significant first.\<close>

definition bigEndian :: "byte list \<Rightarrow> 'a::len word" where
  "bigEndian bs = foldl (\<lambda>w b. push_bit 8 w OR ucast b) 0 bs"

definition BytesToInteger :: "byte list \<Rightarrow> 32 word \<times> bool" where
  "BytesToInteger integer = (if length integer \<noteq> 4 then (0, False) else (bigEndian integer, True))"

definition BytesToInteger64 :: "byte list \<Rightarrow> 64 word \<times> bool" where
  "BytesToInteger64 integer = (if length integer \<noteq> 8 then (0, False) else (bigEndian integer, True))"

definition BytesToTimestamp :: "byte list \<Rightarrow> 32 word \<times> bool" where
  "BytesToTimestamp timestamp =
     (if length timestamp \<noteq> 4 then (0, False) else (bigEndian timestamp, True))"

text \<open>Decimal digits of a number, as \<open>%d\<close> and \<open>strconv.FormatUint(n, 10)\<close> print it.\<close>

function decimal :: "nat \<Rightarrow> string" where
  "decimal n = (if n < 10 then [char_of (48 + n)] else decimal (n div 10) @ [char_of (48 + n mod 10)])"
  by pat_completeness auto
termination
  by (relation "measure id") auto

declare decimal.simps [simp del]

text \<open>
  \<open>BytesToIPv4String\<close>: \<open>net.IPv4(a, b, c, d).String()\<close> is the dotted-decimal form. The
  result is the pair Go returns: the string, and whether the error is non-nil.
\<close>

definition dotted :: "byte list \<Rightarrow> string" where
  "dotted bs = decimal (unat (bs ! 0)) @ ''.'' @ decimal (unat (bs ! 1)) @ ''.''
               @ decimal (unat (bs ! 2)) @ ''.'' @ decimal (unat (bs ! 3))"

definition BytesToIPv4String :: "byte list \<Rightarrow> string \<times> bool" where
  "BytesToIPv4String ipv4 =
     (if length ipv4 = 6
      then (dotted (drop 2 ipv4) @ ''/'' @ decimal (unat (bigEndian (take 2 ipv4) :: 16 word)), False)
      else if length ipv4 = 4 then (dotted ipv4, False)
      else ('''', True))"

text \<open>
  \<open>BytesToIPv6String\<close>: \<open>net.IP.String()\<close> (standard library) is the parameter \<open>ipString\<close>.
\<close>

definition BytesToIPv6String :: "(byte list \<Rightarrow> string) \<Rightarrow> byte list \<Rightarrow> string \<times> bool" where
  "BytesToIPv6String ipString ipv6 =
     (if length ipv6 = 18
      then (ipString (drop 2 ipv6) @ ''/'' @ decimal (unat (ipv6 ! 1)), True)
      else if length ipv6 = 16 then (ipString ipv6, True)
      else ('''', False))"

section \<open>protocol: the dictionary\<close>

datatype SupportedAttributeTypes =
    AsciiString | ByteString | Integer | Integer64 | Date
  | IPv4Addr | IPv4Prefix | IPv6Addr | IPv6Prefix | InterfaceId

record DictionaryAttribute =
  da_name :: string
  da_vendorName :: string
  da_code :: byte
  da_codeType :: SupportedAttributeTypes

record DictionaryValue =
  dv_attributeName :: string
  dv_valueName :: string
  dv_vendorName :: string
  dv_value :: string

record DictionaryVendor =
  ven_name :: string
  ven_id :: byte

record Dictionary =
  dict_attributes :: "DictionaryAttribute list"
  dict_values :: "DictionaryValue list"
  dict_vendors :: "DictionaryVendor list"

definition assignAttributeType :: "string \<Rightarrow> SupportedAttributeTypes option" where
  "assignAttributeType codeType =
     (if codeType = ''text'' then Some AsciiString
      else if codeType = ''string'' then Some ByteString
      else if codeType = ''integer'' then Some Integer
      else if codeType = ''integer64'' then Some Integer64
      else if codeType = ''time'' then Some Date
      else if codeType = ''ipv4addr'' \<or> codeType = ''ipaddr'' then Some IPv4Addr
      else if codeType = ''ipv4prefix'' then Some IPv4Prefix
      else if codeType = ''ipv6addr'' then Some IPv6Addr
      else if codeType = ''ipv6prefix'' then Some IPv6Prefix
      else if codeType = ''ifid'' then Some InterfaceId
      else None)"

text \<open>
  \<open>parseAttribute\<close>, \<open>parseValue\<close> and \<open>parseVendor\<close> return the slice they append to.
  \<open>parsedLine[k]\<close> on a line with too few fields is an index out of range, and a numeric
  field that \<open>strconv.ParseUint\<close> rejects ends in \<open>panic(err)\<close>: both are \<open>Panic\<close>.
\<close>

definition parseAttribute ::
  "string list \<Rightarrow> string \<Rightarrow> DictionaryAttribute list \<Rightarrow> failure + DictionaryAttribute list" where
  "parseAttribute parsedLine vendorName attrs =
     (if length parsedLine \<le> 2 then Inl Panic
      else case ParseUint8 (parsedLine ! 2) of
             None \<Rightarrow> Inl Panic
           | Some v \<Rightarrow>
               if length parsedLine \<le> 3 then Inl Panic
               else (case assignAttributeType (parsedLine ! 3) of
                       Some attrType \<Rightarrow>
                         Inr (attrs @ [\<lparr>da_name = parsedLine ! 1, da_vendorName = vendorName,
                                         da_code = of_nat v, da_codeType = attrType\<rparr>])
                     | None \<Rightarrow> Inr attrs))"

definition parseValue ::
  "string list \<Rightarrow> string \<Rightarrow> DictionaryValue list \<Rightarrow> failure + DictionaryValue list" where
  "parseValue parsedLine vendorName vals =
     (if length parsedLine \<le> 3 then Inl Panic
      else Inr (vals @ [\<lparr>dv_attributeName = parsedLine ! 1, dv_valueName = parsedLine ! 2,
                          dv_vendorName = vendorName, dv_value = parsedLine ! 3\<rparr>]))"

definition parseVendor :: "string list \<Rightarrow> DictionaryVendor list \<Rightarrow> failure + DictionaryVendor list" where
  "parseVendor parsedLine vends =
     (if length parsedLine \<le> 2 then Inl Panic
      else case ParseUint8 (parsedLine ! 2) of
             None \<Rightarrow> Inl Panic
           | Some v \<Rightarrow> Inr (vends @ [\<lparr>ven_name = parsedLine ! 1, ven_id = of_nat v\<rparr>]))"

text \<open>
  The scanner loop of \<open>DictionaryFromFile\<close> over the lines of the file. The state is the
  three slices and the active vendor name. \<open>strings.Fields\<close> (standard library) is the
  parameter \<open>tokenize\<close>; \<open>parsedLine[0]\<close> on a line without fields is an index out of range.
\<close>

record loadState =
  ls_attributes :: "DictionaryAttribute list"
  ls_values :: "DictionaryValue list"
  ls_vendors :: "DictionaryVendor list"
  ls_vendorName :: string

definition hasCommentPrefix :: "string \<Rightarrow> bool" where
  "hasCommentPrefix line = (case line of [] \<Rightarrow> False | c # _ \<Rightarrow> c = CHR ''#'')"

definition loadLine :: "(string \<Rightarrow> string list) \<Rightarrow> string \<Rightarrow> loadState \<Rightarrow> failure + loadState" where
  "loadLine tokenize line st =
     (if line \<noteq> [] \<and> \<not> hasCommentPrefix line
      then (let parsedLine = tokenize line
            in if parsedLine = [] then Inl Panic
               else if parsedLine ! 0 = ''ATTRIBUTE''
                 then (case parseAttribute parsedLine (ls_vendorName st) (ls_attributes st) of
                         Inl e \<Rightarrow> Inl e | Inr a \<Rightarrow> Inr (st\<lparr>ls_attributes := a\<rparr>))
               else if parsedLine ! 0 = ''VALUE''
                 then (case parseValue parsedLine (ls_vendorName st) (ls_values st) of
                         Inl e \<Rightarrow> Inl e | Inr v \<Rightarrow> Inr (st\<lparr>ls_values := v\<rparr>))
               else if parsedLine ! 0 = ''VENDOR''
                 then (case parseVendor parsedLine (ls_vendors st) of
                         Inl e \<Rightarrow> Inl e | Inr v \<Rightarrow> Inr (st\<lparr>ls_vendors := v\<rparr>))
               else if parsedLine ! 0 = ''BEGIN-VENDOR''
                 then (if length parsedLine \<le> 1 then Inl Panic
                       else Inr (st\<lparr>ls_vendorName := parsedLine ! 1\<rparr>))
               else if parsedLine ! 0 = ''END-VENDOR''
                 then Inr (st\<lparr>ls_vendorName := []\<rparr>)
               else Inr st)
      else Inr st)"

fun loadLines :: "(string \<Rightarrow> string list) \<Rightarrow> string list \<Rightarrow> loadState \<Rightarrow> failure + loadState" where
  "loadLines tokenize [] st = Inr st"
| "loadLines tokenize (line # rest) st =
     (case loadLine tokenize line st of
        Inl e \<Rightarrow> Inl e
      | Inr st' \<Rightarrow> loadLines tokenize rest st')"

text \<open>
  \<open>DictionaryFromFile\<close>. The file is what the function sees of it: \<open>None\<close> when \<open>os.Open\<close>
  fails, otherwise the lines \<open>scanner.Scan\<close> yields in order and whether \<open>scanner.Err()\<close>
  is non-nil after the loop.
\<close>

definition DictionaryFromFile ::
  "(string \<Rightarrow> string list) \<Rightarrow> (string list \<times> bool) option \<Rightarrow> failure + Dictionary" where
  "DictionaryFromFile tokenize file =
     (case file of
        None \<Rightarrow> Inl (Error OpenError)
      | Some (lines, scanErr) \<Rightarrow>
          (case loadLines tokenize lines
                  \<lparr>ls_attributes = [], ls_values = [], ls_vendors = [], ls_vendorName = []\<rparr> of
             Inl e \<Rightarrow> Inl e
           | Inr st \<Rightarrow>
               if scanErr then Inl (Error ScanError)
               else Inr \<lparr>dict_attributes = ls_attributes st, dict_values = ls_values st,
                          dict_vendors = ls_vendors st\<rparr>))"

text \<open>
  A tokenizer to run the loader on concrete files: \<open>strings.Fields\<close> restricted to the
  ASCII white space characters.
\<close>

definition isSpace :: "char \<Rightarrow> bool" where
  "isSpace c = ((of_char c :: nat) = 32 \<or> (9 \<le> (of_char c :: nat) \<and> (of_char c :: nat) \<le> 13))"

fun asciiFieldsAux :: "string \<Rightarrow> string \<Rightarrow> string list" where
  "asciiFieldsAux cur [] = (if cur = [] then [] else [cur])"
| "asciiFieldsAux cur (c # cs) =
     (if isSpace c then (if cur = [] then asciiFieldsAux [] cs else cur # asciiFieldsAux [] cs)
      else asciiFieldsAux (cur @ [c]) cs)"

definition asciiFields :: "string \<Rightarrow> string list" where
  "asciiFields s = asciiFieldsAux [] s"

text \<open>
  A line the loop reads as an \<open>ATTRIBUTE\<close> or \<open>VENDOR\<close> directive (not empty, not a
  comment, at least three fields) whose numeric field \<open>strconv.ParseUint\<close> rejects.
\<close>

definition badNumericLine :: "(string \<Rightarrow> string list) \<Rightarrow> string \<Rightarrow> bool" where
  "badNumericLine tokenize line =
     (line \<noteq> [] \<and> \<not> hasCommentPrefix line \<and>
      3 \<le> length (tokenize line) \<and>
      (tokenize line ! 0 = ''ATTRIBUTE'' \<or> tokenize line ! 0 = ''VENDOR'') \<and>
      ParseUint8 (tokenize line ! 2) = None)"

text \<open>
  A line in one of the forms of the dictionary format: empty, a comment, or a directive
  with all its fields (\<open>ATTRIBUTE name code type\<close>, \<open>VALUE attribute value literal\<close>,
  \<open>VENDOR name id\<close>, \<open>BEGIN-VENDOR name\<close>, \<open>END-VENDOR\<close>, or any other first field) whose
  numeric field, if it has one, is a decimal number in \<open>0 .. 255\<close>.
\<close>

definition formedLine :: "(string \<Rightarrow> string list) \<Rightarrow> string \<Rightarrow> bool" where
  "formedLine tokenize line =
     (line = [] \<or> hasCommentPrefix line \<or>
      (tokenize line \<noteq> [] \<and>
       (if tokenize line ! 0 = ''ATTRIBUTE''
          then 4 \<le> length (tokenize line) \<and> ParseUint8 (tokenize line ! 2) \<noteq> None
        else if tokenize line ! 0 = ''VALUE'' then 4 \<le> length (tokenize line)
        else if tokenize line ! 0 = ''VENDOR''
          then 3 \<le> length (tokenize line) \<and> ParseUint8 (tokenize line ! 2) \<noteq> None
        else if tokenize line ! 0 = ''BEGIN-VENDOR'' then 2 \<le> length (tokenize line)
        else True)))"

section \<open>protocol: attributes and packets\<close>

text \<open>
  \<open>TypeCode\<close> is a Go \<open>int\<close> with the fourteen named constants \<open>0 .. 13\<close>; any other
  value is a \<open>TypeCode\<close> that \<open>typeCodeToUint8\<close> rejects.
\<close>

type_synonym TypeCode = int

definition AccessRequest :: TypeCode where "AccessRequest = 0"
definition AccessAccept :: TypeCode where "AccessAccept = 1"
definition AccessReject :: TypeCode where "AccessReject = 2"
definition AccountingRequest :: TypeCode where "AccountingRequest = 3"
definition AccountingResponse :: TypeCode where "AccountingResponse = 4"
definition AccessChallenge :: TypeCode where "AccessChallenge = 5"
definition StatusServer :: TypeCode where "StatusServer = 6"
definition StatusClient :: TypeCode where "StatusClient = 7"
definition DisconnectRequest :: TypeCode where "DisconnectRequest = 8"
definition DisconnectACK :: TypeCode where "DisconnectACK = 9"
definition DisconnectNAK :: TypeCode where "DisconnectNAK = 10"
definition CoARequest :: TypeCode where "CoARequest = 11"
definition CoAACK :: TypeCode where "CoAACK = 12"
definition CoANAK :: TypeCode where "CoANAK = 13"

lemmas TypeCode_defs =
  AccessRequest_def AccessAccept_def AccessReject_def AccountingRequest_def
  AccountingResponse_def AccessChallenge_def StatusServer_def StatusClient_def
  DisconnectRequest_def DisconnectACK_def DisconnectNAK_def CoARequest_def CoAACK_def
  CoANAK_def

definition typeCodeFromUint8 :: "byte \<Rightarrow> TypeCode option" where
  "typeCodeFromUint8 code =
     (if code = 1 then Some AccessRequest
      else if code = 2 then Some AccessAccept
      else if code = 3 then Some AccessReject
      else if code = 4 then Some AccountingRequest
      else if code = 5 then Some AccountingResponse
      else if code = 11 then Some AccessChallenge
      else if code = 12 then Some StatusServer
      else if code = 13 then Some StatusClient
      else if code = 40 then Some DisconnectRequest
      else if code = 41 then Some DisconnectACK
      else if code = 42 then Some DisconnectNAK
      else if code = 43 then Some CoARequest
      else if code = 44 then Some CoAACK
      else if code = 45 then Some CoANAK
      else None)"

definition typeCodeToUint8 :: "TypeCode \<Rightarrow> byte option" where
  "typeCodeToUint8 code =
     (if code = AccessRequest then Some 1
      else if code = AccessAccept then Some 2
      else if code = AccessReject then Some 3
      else if code = AccountingRequest then Some 4
      else if code = AccountingResponse then Some 5
      else if code = AccessChallenge then Some 11
      else if code = StatusServer then Some 12
      else if code = StatusClient then Some 13
      else if code = DisconnectRequest then Some 40
      else if code = DisconnectACK then Some 41
      else if code = DisconnectNAK then Some 42
      else if code = CoARequest then Some 43
      else if code = CoAACK then Some 44
      else if code = CoANAK then Some 45
      else None)"

record RadiusAttribute =
  ra_id :: byte
  ra_name :: string
  ra_value :: "byte list"

text \<open>
  \<open>CreateRadAttributeByName\<close> and \<open>CreateRadAttributeByID\<close>: the first dictionary entry
  with the name (the code) decides; \<open>None\<close> is the \<open>false\<close> of the Go result.
\<close>

definition CreateRadAttributeByName :: "Dictionary \<Rightarrow> string \<Rightarrow> byte list \<Rightarrow> RadiusAttribute option" where
  "CreateRadAttributeByName dictionary attributeName v =
     (case find (\<lambda>attr. da_name attr = attributeName) (dict_attributes dictionary) of
        Some attr \<Rightarrow> Some \<lparr>ra_id = da_code attr, ra_name = attributeName, ra_value = v\<rparr>
      | None \<Rightarrow> None)"

definition CreateRadAttributeByID :: "Dictionary \<Rightarrow> byte \<Rightarrow> byte list \<Rightarrow> RadiusAttribute option" where
  "CreateRadAttributeByID dictionary attributeID v =
     (case find (\<lambda>attr. da_code attr = attributeID) (dict_attributes dictionary) of
        Some attr \<Rightarrow> Some \<lparr>ra_id = attributeID, ra_name = da_name attr, ra_value = v\<rparr>
      | None \<Rightarrow> None)"

text \<open>
  \<open>VerifyOriginalValue\<close>. \<open>utf8.Valid\<close> (standard library) is the parameter \<open>utf8Valid\<close>.
  The switch has no case for \<open>Integer64\<close>, \<open>IPv4Prefix\<close> and \<open>InterfaceId\<close>: they take
  the default branch.
\<close>

definition VerifyOriginalValue ::
  "(byte list \<Rightarrow> bool) \<Rightarrow> (byte list \<Rightarrow> string) \<Rightarrow> RadiusAttribute \<Rightarrow> SupportedAttributeTypes \<Rightarrow> bool" where
  "VerifyOriginalValue utf8Valid ipString radAttr allowedType =
     (case allowedType of
        AsciiString \<Rightarrow> utf8Valid (ra_value radAttr)
      | ByteString \<Rightarrow> ra_value radAttr \<noteq> []
      | Integer \<Rightarrow> snd (BytesToInteger (ra_value radAttr))
      | Date \<Rightarrow> snd (BytesToTimestamp (ra_value radAttr))
      | IPv4Addr \<Rightarrow> fst (BytesToIPv4String (ra_value radAttr)) \<noteq> []
      | IPv6Addr \<Rightarrow> snd (BytesToIPv6String ipString (ra_value radAttr))
      | IPv6Prefix \<Rightarrow> snd (BytesToIPv6String ipString (ra_value radAttr))
      | _ \<Rightarrow> False)"

text \<open>\<open>toBytes\<close> of an attribute: the length byte is \<open>uint8(2 + len(value))\<close>.\<close>

definition toBytes :: "RadiusAttribute \<Rightarrow> byte list" where
  "toBytes radAttr = [ra_id radAttr, of_nat (2 + length (ra_value radAttr))] @ ra_value radAttr"

record RadiusPacket =
  rp_id :: byte
  rp_code :: TypeCode
  rp_authenticator :: "byte list"
  rp_attributes :: "RadiusAttribute list"

definition packetLengthToBytes :: "16 word \<Rightarrow> byte list" where
  "packetLengthToBytes l = [ucast (drop_bit 8 l), ucast l]"

text \<open>
  \<open>createPacketAuthenticator\<close>: 16 draws of \<open>rand.Intn(256)\<close>; \<open>draws\<close> are the numbers
  the generator hands out.
\<close>

definition createPacketAuthenticator :: "(nat \<Rightarrow> nat) \<Rightarrow> byte list" where
  "createPacketAuthenticator draws = map (\<lambda>i. of_nat (draws i)) [0 ..< 16]"

text \<open>
  \<open>ToBytes\<close> has a pointer receiver: an empty authenticator is replaced in the packet by
  a fresh one before the bytes are built. The result is the packet after the call and the
  bytes, \<open>None\<close> for the \<open>false\<close> of an unknown \<open>TypeCode\<close>.
\<close>

definition ToBytes :: "(nat \<Rightarrow> nat) \<Rightarrow> RadiusPacket \<Rightarrow> RadiusPacket \<times> byte list option" where
  "ToBytes draws radPacket =
     (let p = (if length (rp_authenticator radPacket) = 0
               then radPacket\<lparr>rp_authenticator := createPacketAuthenticator draws\<rparr>
               else radPacket);
          packetAttr = concat (map toBytes (rp_attributes p))
      in case typeCodeToUint8 (rp_code p) of
           None \<Rightarrow> (p, None)
         | Some code \<Rightarrow>
             (p, Some ([code, rp_id p]
                       @ packetLengthToBytes (of_nat (20 + length packetAttr))
                       @ rp_authenticator p @ packetAttr)))"

text \<open>
  The attribute loop of \<open>InitialiseRadiusPacketFromBytes\<close>. \<open>bytes\<close> are the elements of
  the buffer and \<open>spare\<close> the cells of its backing array between length and capacity.
  \<open>(*bytes)[lastIndex]\<close> and \<open>(*bytes)[lastIndex + 1]\<close> are checked against the length,
  the slice expression \<open>(*bytes)[lastIndex + 2 : lastIndex + attrLength]\<close> against the
  capacity and against \<open>low \<le> high\<close>.
\<close>

function parseAttributes ::
  "Dictionary \<Rightarrow> byte list \<Rightarrow> byte list \<Rightarrow> nat \<Rightarrow> RadiusAttribute list
     \<Rightarrow> failure + RadiusAttribute list" where
  "parseAttributes dictionary bytes spare lastIndex attrs =
     (if lastIndex = length bytes then Inr attrs
      else if length bytes \<le> lastIndex + 1 then Inl Panic
      else
        let attrID = bytes ! lastIndex;
            attrLength = unat (bytes ! (lastIndex + 1))
        in case go_slice bytes spare (lastIndex + 2) (lastIndex + attrLength) of
             Inl e \<Rightarrow> Inl e
           | Inr attrValue \<Rightarrow>
               (case CreateRadAttributeByID dictionary attrID attrValue of
                  None \<Rightarrow> Inl (Error (AttributeNotFound attrID))
                | Some tmpAttr \<Rightarrow>
                    parseAttributes dictionary bytes spare (lastIndex + attrLength)
                      (attrs @ [tmpAttr])))"
  by pat_completeness auto
termination
proof (relation "measure (\<lambda>(dictionary, bytes, spare, lastIndex, attrs). Suc (length bytes) - lastIndex)",
       goal_cases)
  case 1
  show ?case by simp
next
  case (2 dictionary bytes spare lastIndex attrs attrID attrLength attrValue tmpAttr)
  from 2(5) have "lastIndex + 2 \<le> lastIndex + attrLength"
    by (simp add: go_slice_def split: if_splits)
  with 2(2) show ?case by simp
qed

declare parseAttributes.simps [simp del]

definition InitialiseRadiusPacketFromBytes ::
  "Dictionary \<Rightarrow> byte list \<Rightarrow> byte list \<Rightarrow> failure + RadiusPacket" where
  "InitialiseRadiusPacketFromBytes dictionary bytes spare =
     (if length bytes = 0 then Inl Panic
      else case typeCodeFromUint8 (bytes ! 0) of
             None \<Rightarrow> Inl (Error InvalidTypeCode)
           | Some code \<Rightarrow>
               if length bytes \<le> 1 then Inl Panic
               else (case go_slice bytes spare 4 20 of
                       Inl e \<Rightarrow> Inl e
                     | Inr authenticator \<Rightarrow>
                         (case parseAttributes dictionary bytes spare 20 [] of
                            Inl e \<Rightarrow> Inl e
                          | Inr attrs \<Rightarrow>
                              Inr \<lparr>rp_id = bytes ! 1, rp_code = code,
                                   rp_authenticator = authenticator, rp_attributes = attrs\<rparr>)))"

text \<open>
  \<open>OverrideMessageAuthenticator\<close> replaces the value of the first attribute named
  \<open>Message-Authenticator\<close>. The result is the packet after the call and the error, if any.
\<close>

fun overrideFirst :: "byte list \<Rightarrow> RadiusAttribute list \<Rightarrow> RadiusAttribute list option" where
  "overrideFirst newMessageAuth [] = None"
| "overrideFirst newMessageAuth (attr # rest) =
     (if ra_name attr = ''Message-Authenticator''
      then Some (attr\<lparr>ra_value := newMessageAuth\<rparr> # rest)
      else map_option (\<lambda>r. attr # r) (overrideFirst newMessageAuth rest))"

definition OverrideMessageAuthenticator ::
  "RadiusPacket \<Rightarrow> byte list \<Rightarrow> RadiusPacket \<times> error option" where
  "OverrideMessageAuthenticator radPacket newMessageAuth =
     (case overrideFirst newMessageAuth (rp_attributes radPacket) of
        Some attrs \<Rightarrow> (radPacket\<lparr>rp_attributes := attrs\<rparr>, None)
      | None \<Rightarrow> (radPacket, Some MsgAuthNotFound))"

definition MessageAuthenticator :: "RadiusPacket \<Rightarrow> byte list option" where
  "MessageAuthenticator radPacket =
     map_option ra_value
       (find (\<lambda>attr. ra_name attr = ''Message-Authenticator'') (rp_attributes radPacket))"

text \<open>
  \<open>GenerateMessageAuthenticator\<close>. HMAC-MD5 (\<open>crypto/hmac\<close> over \<open>crypto/md5\<close>, standard
  library) is the parameter \<open>hmac\<close>: \<open>hmac secret msg\<close> stands for
  \<open>h := hmac.New(md5.New, []uint8(secret)); h.Write(msg); h.Sum(nil)\<close>. The secret is the
  byte sequence of the Go string.
\<close>

definition GenerateMessageAuthenticator ::
  "(byte list \<Rightarrow> byte list \<Rightarrow> byte list) \<Rightarrow> (nat \<Rightarrow> nat) \<Rightarrow> RadiusPacket \<Rightarrow> byte list
     \<Rightarrow> RadiusPacket \<times> error option" where
  "GenerateMessageAuthenticator hmac draws radPacket secret =
     (case OverrideMessageAuthenticator radPacket (replicate 16 0) of
        (p1, Some err) \<Rightarrow> (p1, Some err)
      | (p1, None) \<Rightarrow>
          (case ToBytes draws p1 of
             (p2, None) \<Rightarrow> (p2, Some ToBytesFailed)
           | (p2, Some packetBytes) \<Rightarrow>
               OverrideMessageAuthenticator p2 (hmac secret packetBytes)))"

section \<open>protocol: the host facade\<close>

text \<open>
  \<open>Host.VerifyMessageAuthenticator\<close>, with the dictionary of the host as an argument.
  \<open>hmac.Equal\<close> holds exactly when the two byte sequences are equal. \<open>Inr ()\<close> is the
  \<open>nil\<close> error.
\<close>

definition VerifyMessageAuthenticator ::
  "(byte list \<Rightarrow> byte list \<Rightarrow> byte list) \<Rightarrow> (nat \<Rightarrow> nat) \<Rightarrow> Dictionary \<Rightarrow> byte list
     \<Rightarrow> byte list \<Rightarrow> byte list \<Rightarrow> failure + unit" where
  "VerifyMessageAuthenticator hmac draws dictionary secret packet spare =
     (case InitialiseRadiusPacketFromBytes dictionary packet spare of
        Inl e \<Rightarrow> Inl e
      | Inr radPacket \<Rightarrow>
          (case MessageAuthenticator radPacket of
             None \<Rightarrow> Inl (Error MsgAuthNotFound)
           | Some originalMsgAuth \<Rightarrow>
               (case ToBytes draws (fst (OverrideMessageAuthenticator radPacket (replicate 16 0))) of
                  (p, None) \<Rightarrow> Inl (Error ToBytesFailed)
                | (p, Some packetBytes) \<Rightarrow>
                    if originalMsgAuth = hmac secret packetBytes then Inr ()
                    else Inl (Error MsgAuthMismatch))))"

text \<open>
  The fourteen codes of RFC 2865 and RFC 3576 that the library names.
\<close>

definition knownTypeCodes :: "TypeCode list" where
  "knownTypeCodes =
     [AccessRequest, AccessAccept, AccessReject, AccountingRequest, AccountingResponse,
      AccessChallenge, StatusServer, StatusClient, DisconnectRequest, DisconnectACK,
      DisconnectNAK, CoARequest, CoAACK, CoANAK]"

text \<open>
  The name the dictionary gives an attribute id: the name of the first dictionary entry
  with that code, if there is one.
\<close>

definition dictionaryName :: "Dictionary \<Rightarrow> byte \<Rightarrow> string option" where
  "dictionaryName dictionary i =
     map_option da_name (find (\<lambda>entry. da_code entry = i) (dict_attributes dictionary))"

text \<open>
  Well-formed packets and attributes, as the round-trip property words them: the
  attribute's value has at most 253 bytes and its name is the name of the first dictionary
  entry with its id (so the id resolves); the packet's code is one of the fourteen, its
  authenticator has 16 bytes, and its attributes are well-formed.
\<close>

definition wellFormedAttribute :: "Dictionary \<Rightarrow> RadiusAttribute \<Rightarrow> bool" where
  "wellFormedAttribute dictionary a =
     (length (ra_value a) \<le> 253 \<and> dictionaryName dictionary (ra_id a) = Some (ra_name a))"

definition wellFormedPacket :: "Dictionary \<Rightarrow> RadiusPacket \<Rightarrow> bool" where
  "wellFormedPacket dictionary p =
     (rp_code p \<in> set knownTypeCodes \<and>
      length (rp_authenticator p) = 16 \<and>
      list_all (wellFormedAttribute dictionary) (rp_attributes p))"

text \<open>
  An attribute whose id resolves in the dictionary, under whatever name, and whose value
  has at most 253 bytes.
\<close>

definition resolvableAttribute :: "Dictionary \<Rightarrow> RadiusAttribute \<Rightarrow> bool" where
  "resolvableAttribute dictionary a =
     (length (ra_value a) \<le> 253 \<and> dictionaryName dictionary (ra_id a) \<noteq> None)"

text \<open>
  An attribute under the name the dictionary gives its id.
\<close>

definition renamed :: "Dictionary \<Rightarrow> RadiusAttribute \<Rightarrow> RadiusAttribute" where
  "renamed dictionary a = a\<lparr>ra_name := the (dictionaryName dictionary (ra_id a))\<rparr>"

text \<open>
  The packet and the dictionary agree on where the \<open>Message-Authenticator\<close> is: the list
  has an attribute of that name, the dictionary gives the id of the first such attribute
  that name, and it gives that name to the id of no attribute before it.
\<close>

fun msgAuthAgrees :: "Dictionary \<Rightarrow> RadiusAttribute list \<Rightarrow> bool" where
  "msgAuthAgrees dictionary [] = False"
| "msgAuthAgrees dictionary (a # rest) =
     (if ra_name a = ''Message-Authenticator''
      then dictionaryName dictionary (ra_id a) = Some ''Message-Authenticator''
      else dictionaryName dictionary (ra_id a) \<noteq> Some ''Message-Authenticator''
           \<and> msgAuthAgrees dictionary rest)"

text \<open>
  A keyed digest of 16 bytes to run the definitions on concrete packets. It is not
  HMAC-MD5.
\<close>

definition sampleHmac :: "byte list \<Rightarrow> byte list \<Rightarrow> byte list" where
  "sampleHmac key msg = sampleDigest (key @ 0 # msg)"

text \<open>
  An attribute whose wire form the decoder reads back: the value fits the length byte and
  the id resolves in the dictionary.
\<close>

definition decodableAttribute :: "Dictionary \<Rightarrow> RadiusAttribute \<Rightarrow> bool" where
  "decodableAttribute dictionary a =
     (length (ra_value a) \<le> 253 \<and>
      CreateRadAttributeByID dictionary (ra_id a) (ra_value a) \<noteq> None)"

text \<open>
  The bytes \<open>rest\<close> left at an attribute header that does not tile the buffer: the length
  byte is missing, or it is less than 2, or it exceeds the bytes left. In the last case the
  slice expression still succeeds when the capacity allows it, and the decoder goes on to
  the dictionary lookup: the fault is certain when the slice exceeds the capacity or the
  id resolves.
\<close>

definition malformedTail :: "Dictionary \<Rightarrow> byte list \<Rightarrow> byte list \<Rightarrow> bool" where
  "malformedTail dictionary rest spare =
     (rest \<noteq> [] \<and>
      (length rest = 1 \<or> unat (rest ! 1) < 2 \<or>
       (length rest < unat (rest ! 1) \<and>
        (length rest + length spare < unat (rest ! 1) \<or>
         find (\<lambda>attr. da_code attr = rest ! 0) (dict_attributes dictionary) \<noteq> None))))"

text \<open>
  The call sequence of the HMAC symmetry property: \<open>GenerateMessageAuthenticator\<close>, then
  \<open>ToBytes\<close> on the packet it leaves, then \<open>VerifyMessageAuthenticator\<close> on those bytes.
\<close>

definition generateSerializeVerify ::
  "(byte list \<Rightarrow> byte list \<Rightarrow> byte list) \<Rightarrow> (nat \<Rightarrow> nat) \<Rightarrow> Dictionary \<Rightarrow> RadiusPacket
     \<Rightarrow> byte list \<Rightarrow> byte list \<Rightarrow> failure + unit" where
  "generateSerializeVerify hmac draws dictionary radPacket secret spare =
     (case GenerateMessageAuthenticator hmac draws radPacket secret of
        (p1, Some err) \<Rightarrow> Inl (Error err)
      | (p1, None) \<Rightarrow>
          (case ToBytes draws p1 of
             (p2, None) \<Rightarrow> Inl (Error ToBytesFailed)
           | (p2, Some packetBytes) \<Rightarrow>
               VerifyMessageAuthenticator hmac draws dictionary secret packetBytes spare))"

text \<open>Dictionaries to run the definitions on concrete packets.\<close>

definition sampleDictionary :: Dictionary where
  "sampleDictionary =
     \<lparr>dict_attributes =
        [\<lparr>da_name = ''User-Name'', da_vendorName = [], da_code = 1, da_codeType = AsciiString\<rparr>,
         \<lparr>da_name = ''Message-Authenticator'', da_vendorName = [], da_code = 80,
           da_codeType = ByteString\<rparr>],
      dict_values = [], dict_vendors = []\<rparr>"

text \<open>
  A dictionary in which a vendor attribute and \<open>Message-Authenticator\<close> share the code 80
  (the lookups do not look at the vendor name).
\<close>

definition overlappingDictionary :: Dictionary where
  "overlappingDictionary =
     \<lparr>dict_attributes =
        [\<lparr>da_name = ''Somevendor-Tag'', da_vendorName = ''Somevendor'', da_code = 80,
           da_codeType = ByteString\<rparr>,
         \<lparr>da_name = ''Message-Authenticator'', da_vendorName = [], da_code = 80,
           da_codeType = ByteString\<rparr>],
      dict_values = [], dict_vendors = []\<rparr>"

text \<open>
  A dictionary in which a vendor attribute shares the code 1 with \<open>User-Name\<close>.
\<close>

definition vendorDictionary :: Dictionary where
  "vendorDictionary =
     \<lparr>dict_attributes =
        [\<lparr>da_name = ''User-Name'', da_vendorName = [], da_code = 1, da_codeType = AsciiString\<rparr>,
         \<lparr>da_name = ''Message-Authenticator'', da_vendorName = [], da_code = 80,
           da_codeType = ByteString\<rparr>,
         \<lparr>da_name = ''Somevendor-Name'', da_vendorName = ''Somevendor'', da_code = 1,
           da_codeType = AsciiString\<rparr>],
      dict_values = [], dict_vendors = []\<rparr>"

section \<open>Properties of the obscuring schemes\<close>

lemma go_copy_full [simp]: "length dst \<le> length src \<Longrightarrow> go_copy dst src = take (length dst) src"
  by (simp add: go_copy_def)

lemma map2_xor_cancel:
  "length (xs :: byte list) = length ys \<Longrightarrow> map2 (XOR) (map2 (XOR) xs ys) ys = xs"
  by (induction xs ys rule: list_induct2) (auto simp: xor.assoc)

lemma map2_xor_commute: "map2 (XOR) (xs :: byte list) ys = map2 (XOR) ys xs"
proof (induction xs arbitrary: ys)
  case Nil
  then show ?case by simp
next
  case (Cons x xs)
  then show ?case by (cases ys) (auto simp: xor.commute)
qed

lemma length_specEncryptChain:
  "digest16 md5 \<Longrightarrow> length plain mod 16 = 0 \<Longrightarrow>
   length (specEncryptChain md5 secret prev plain) = length plain"
proof (induction md5 secret prev plain rule: specEncryptChain.induct)
  case (1 md5 secret prev plain)
  show ?case
  proof (cases "length plain < 16")
    case True
    with "1.prems" show ?thesis by (simp add: specEncryptChain.simps)
  next
    case False
    have m: "length (drop 16 plain) mod 16 = 0"
      using "1.prems"(2) False by (simp add: mod_diff_right_eq [symmetric] le_mod_geq)
    have d: "length (md5 (secret @ prev)) = 16"
      using "1.prems"(1) by (simp add: digest16_def)
    from "1.IH" [OF False refl "1.prems"(1) m] False d show ?thesis
      by (subst specEncryptChain.simps) (simp add: Let_def)
  qed
qed

lemma encryptHelper_step:
  assumes "digest16 md5" "length hash = 16" "length tmp = 16" "16 \<le> length data"
  shows "encryptHelper md5 secret authenticator iteration tmp hash data out =
     (let d = md5 (secret @ (if iteration = 1 then authenticator else tmp));
          c = map2 (XOR) (take 16 data) d
      in if length data = 16 then Inr (out @ c)
         else encryptHelper md5 secret authenticator (iteration + 1) c d (drop 16 data) (out @ c))"
proof -
  let ?d = "md5 (secret @ (if iteration = 1 then authenticator else tmp))"
  have d: "length ?d = 16" using assms(1) by (simp add: digest16_def)
  have h1: "go_copy hash ?d = ?d" using d assms(2) by simp
  have c: "length (map2 (XOR) (take 16 data) ?d) = 16" using d assms(4) by simp
  have t: "go_copy tmp (map2 (XOR) (take 16 data) ?d) = map2 (XOR) (take 16 data) ?d"
    using c assms(3) by simp
  show ?thesis
    apply (subst encryptHelper.simps)
    unfolding Let_def h1
    using d c t assms(4) by (simp del: One_nat_def)
qed

lemma encryptHelper_chain:
  "digest16 md5 \<Longrightarrow> length hash = 16 \<Longrightarrow> length tmp = 16 \<Longrightarrow>
   length data mod 16 = 0 \<Longrightarrow> data \<noteq> [] \<Longrightarrow> 1 \<le> iteration \<Longrightarrow>
   encryptHelper md5 secret authenticator iteration tmp hash data out
     = Inr (out @ specEncryptChain md5 secret (if iteration = 1 then authenticator else tmp) data)"
proof (induction "length data" arbitrary: data iteration tmp hash out rule: less_induct)
  case less
  let ?prev = "if iteration = 1 then authenticator else tmp"
  let ?d = "md5 (secret @ ?prev)"
  let ?c = "map2 (XOR) (take 16 data) ?d"
  have d: "length ?d = 16" using less.prems(1) by (simp add: digest16_def)
  have len: "16 \<le> length data" using less.prems(4,5)
    by (metis length_0_conv mod_less not_le_imp_less)
  have c: "length ?c = 16" using d len by simp
  note step = encryptHelper_step [OF less.prems(1,2,3) len, of secret authenticator iteration out]
  show ?case
  proof (cases "length data = 16")
    case True
    then have "specEncryptChain md5 secret ?prev data = ?c"
      by (subst specEncryptChain.simps, subst specEncryptChain.simps) (simp add: Let_def)
    with True step show ?thesis by (simp add: Let_def)
  next
    case False
    with len have gt: "16 < length data" by simp
    have m: "length (drop 16 data) mod 16 = 0"
      using less.prems(4) len by (simp add: mod_diff_right_eq [symmetric] le_mod_geq)
    have ne: "drop 16 data \<noteq> []" using gt by simp
    have unf: "specEncryptChain md5 secret ?prev data
                 = ?c @ specEncryptChain md5 secret ?c (drop 16 data)"
      using len by (subst specEncryptChain.simps) (simp add: Let_def)
    have "encryptHelper md5 secret authenticator (iteration + 1) ?c ?d (drop 16 data) (out @ ?c)
        = Inr ((out @ ?c) @ specEncryptChain md5 secret
               (if iteration + 1 = 1 then authenticator else ?c) (drop 16 data))"
      by (rule less.hyps [OF _ less.prems(1) d c m ne]) (use gt in simp_all)
    with step unf False less.prems(6) show ?thesis by (simp add: Let_def)
  qed
qed

lemma decryptLoop_step:
  assumes "digest16 md5" "length hash = 16" "length prevResult = 16" "16 \<le> length data"
  shows "decryptLoop md5 secret prevResult hash data result =
     (let p = map2 (XOR) (md5 (secret @ prevResult)) (take 16 data)
      in if length data = 16 then Inr (result @ p)
         else decryptLoop md5 secret (take 16 data) p (drop 16 data) (result @ p))"
proof -
  let ?d = "md5 (secret @ prevResult)"
  have d: "length ?d = 16" using assms(1) by (simp add: digest16_def)
  have h1: "go_copy hash ?d = ?d" using d assms(2) by simp
  have t: "go_copy prevResult (take 16 data) = take 16 data"
    using assms(3,4) by simp
  show ?thesis
    apply (subst decryptLoop.simps)
    unfolding Let_def h1 t
    using d assms(4) by simp
qed

lemma decryptLoop_chain:
  "digest16 md5 \<Longrightarrow> length hash = 16 \<Longrightarrow> length prevResult = 16 \<Longrightarrow>
   length data mod 16 = 0 \<Longrightarrow> data \<noteq> [] \<Longrightarrow>
   decryptLoop md5 secret prevResult hash data result
     = Inr (result @ specDecryptChain md5 secret prevResult data)"
proof (induction "length data" arbitrary: data prevResult hash result rule: less_induct)
  case less
  let ?p = "map2 (XOR) (md5 (secret @ prevResult)) (take 16 data)"
  have d: "length (md5 (secret @ prevResult)) = 16" using less.prems(1) by (simp add: digest16_def)
  have len: "16 \<le> length data" using less.prems(4,5)
    by (metis length_0_conv mod_less not_le_imp_less)
  have p: "length ?p = 16" using d len by simp
  note step = decryptLoop_step [OF less.prems(1,2,3) len, of secret result]
  have unf: "specDecryptChain md5 secret prevResult data
               = ?p @ specDecryptChain md5 secret (take 16 data) (drop 16 data)"
    using len by (subst specDecryptChain.simps) (simp add: map2_xor_commute)
  show ?case
  proof (cases "length data = 16")
    case True
    then have "specDecryptChain md5 secret (take 16 data) (drop 16 data) = []"
      by (subst specDecryptChain.simps) simp
    with True step unf show ?thesis by (simp add: Let_def)
  next
    case False
    with len have gt: "16 < length data" by simp
    have m: "length (drop 16 data) mod 16 = 0"
      using less.prems(4) len by (simp add: mod_diff_right_eq [symmetric] le_mod_geq)
    have ne: "drop 16 data \<noteq> []" using gt by simp
    have t: "length (take 16 data) = 16" using len by simp
    have "decryptLoop md5 secret (take 16 data) ?p (drop 16 data) (result @ ?p)
        = Inr ((result @ ?p) @ specDecryptChain md5 secret (take 16 data) (drop 16 data))"
      by (rule less.hyps [OF _ less.prems(1) p t m ne]) (use gt in simp)
    with step unf False show ?thesis by (simp add: Let_def)
  qed
qed

lemma spec_chain_roundtrip:
  "digest16 md5 \<Longrightarrow> length plain mod 16 = 0 \<Longrightarrow>
   specDecryptChain md5 secret prev (specEncryptChain md5 secret prev plain) = plain"
proof (induction md5 secret prev plain rule: specEncryptChain.induct)
  case (1 md5 secret prev plain)
  show ?case
  proof (cases "length plain < 16")
    case True
    with "1.prems"(2) have "plain = []" by simp
    then show ?thesis
      by (subst specEncryptChain.simps, subst specDecryptChain.simps) simp
  next
    case False
    let ?d = "md5 (secret @ prev)"
    let ?c = "map2 (XOR) (take 16 plain) ?d"
    let ?rest = "specEncryptChain md5 secret ?c (drop 16 plain)"
    have d: "length ?d = 16" using "1.prems"(1) by (simp add: digest16_def)
    have c: "length ?c = 16" using d False by simp
    have m: "length (drop 16 plain) mod 16 = 0"
      using "1.prems"(2) False by (simp add: mod_diff_right_eq [symmetric] le_mod_geq)
    have unf: "specEncryptChain md5 secret prev plain = ?c @ ?rest"
      using False by (subst specEncryptChain.simps) (simp add: Let_def)
    have ih: "specDecryptChain md5 secret ?c ?rest = drop 16 plain"
      by (rule "1.IH" [OF False refl "1.prems"(1) m])
    have x: "map2 (XOR) ?c ?d = take 16 plain"
      by (rule map2_xor_cancel) (use d False in simp)
    have "specDecryptChain md5 secret prev (?c @ ?rest)
            = map2 (XOR) ?c ?d @ specDecryptChain md5 secret ?c ?rest"
      using c by (subst specDecryptChain.simps) simp
    with unf ih x show ?thesis by simp
  qed
qed

lemma stripZeros_padding:
  "p \<noteq> [] \<Longrightarrow> last p \<noteq> 0 \<Longrightarrow> stripZeros (p @ replicate k 0) = Inr p"
proof (induction k)
  case 0
  then show ?case by (subst stripZeros.simps) simp
next
  case (Suc k)
  have e: "p @ replicate (Suc k) 0 = (p @ replicate k 0) @ [0]"
    by (simp add: replicate_append_same)
  have "stripZeros ((p @ replicate k 0) @ [0]) = stripZeros (p @ replicate k 0)"
    by (subst stripZeros.simps) (simp add: butlast_append)
  with e Suc show ?case by simp
qed

lemma stripZeros_all_zero: "stripZeros (replicate k 0) = Inl Panic"
proof (induction k)
  case 0
  then show ?case by (subst stripZeros.simps) simp
next
  case (Suc k)
  have e: "replicate (Suc k) (0::byte) = replicate k 0 @ [0]"
    by (simp add: replicate_append_same)
  have "stripZeros (replicate k 0 @ [0]) = stripZeros (replicate k 0)"
    by (subst stripZeros.simps) simp
  with e Suc show ?case by simp
qed

lemma EncryptData_chain:
  assumes "digest16 md5"
  shows "EncryptData md5 data authenticator secret =
     Inr (specEncryptChain md5 secret authenticator
            (data @ replicate (16 - length data mod 16) 0))"
proof -
  let ?pad = "16 - length data mod 16"
  let ?init = "data @ replicate ?pad (0::byte)"
  have lp: "length ?init = length data + 16 - length data mod 16" by simp
  have "length ?init = 16 * (length data div 16 + 1)"
    unfolding lp by presburger
  then have m: "length ?init mod 16 = 0" by simp
  have ne: "?init \<noteq> []" by simp
  have tk: "take ?pad (replicate 16 (0::byte)) = replicate ?pad 0" by simp
  show ?thesis
    unfolding EncryptData_def Let_def tk
    using encryptHelper_chain [OF assms _ _ m ne, of "replicate 16 0" "replicate 16 0" 1 secret authenticator "[]"]
    by simp
qed

lemma digest16_sampleDigest: "digest16 sampleDigest"
  by (simp add: digest16_def sampleDigest_def)

lemma saltDecryptLoop_step:
  assumes "digest16 md5" "length hash = 16" "16 \<le> length data"
  shows "saltDecryptLoop md5 secret prevResult hash data result =
     (let p = map2 (XOR) (md5 (secret @ prevResult)) (take 16 data)
      in if length data = 16 then Inr (result @ p)
         else saltDecryptLoop md5 secret (take 16 data) p (drop 16 data) (result @ p))"
proof -
  let ?d = "md5 (secret @ prevResult)"
  have d: "length ?d = 16" using assms(1) by (simp add: digest16_def)
  have h1: "go_copy hash ?d = ?d" using d assms(2) by simp
  show ?thesis
    apply (subst saltDecryptLoop.simps)
    unfolding Let_def h1
    using d assms(3) by simp
qed

lemma saltDecryptLoop_chain:
  "digest16 md5 \<Longrightarrow> length hash = 16 \<Longrightarrow>
   length data mod 16 = 0 \<Longrightarrow> data \<noteq> [] \<Longrightarrow>
   saltDecryptLoop md5 secret prevResult hash data result
     = Inr (result @ specDecryptChain md5 secret prevResult data)"
proof (induction "length data" arbitrary: data prevResult hash result rule: less_induct)
  case less
  let ?p = "map2 (XOR) (md5 (secret @ prevResult)) (take 16 data)"
  have d: "length (md5 (secret @ prevResult)) = 16" using less.prems(1) by (simp add: digest16_def)
  have len: "16 \<le> length data" using less.prems(3,4)
    by (metis length_0_conv mod_less not_le_imp_less)
  have p: "length ?p = 16" using d len by simp
  note step = saltDecryptLoop_step [OF less.prems(1,2) len, of secret prevResult result]
  have unf: "specDecryptChain md5 secret prevResult data
               = ?p @ specDecryptChain md5 secret (take 16 data) (drop 16 data)"
    using len by (subst specDecryptChain.simps) (simp add: map2_xor_commute)
  show ?case
  proof (cases "length data = 16")
    case True
    then have "specDecryptChain md5 secret (take 16 data) (drop 16 data) = []"
      by (subst specDecryptChain.simps) simp
    with True step unf show ?thesis by (simp add: Let_def)
  next
    case False
    with len have gt: "16 < length data" by simp
    have m: "length (drop 16 data) mod 16 = 0"
      using less.prems(3) len by (simp add: mod_diff_right_eq [symmetric] le_mod_geq)
    have ne: "drop 16 data \<noteq> []" using gt by simp
    have "saltDecryptLoop md5 secret (take 16 data) ?p (drop 16 data) (result @ ?p)
        = Inr ((result @ ?p) @ specDecryptChain md5 secret (take 16 data) (drop 16 data))"
      by (rule less.hyps [OF _ less.prems(1) p m ne]) (use gt in simp)
    with step unf False show ?thesis by (simp add: Let_def)
  qed
qed

lemma length_specDecryptChain:
  "digest16 md5 \<Longrightarrow> length cipher mod 16 = 0 \<Longrightarrow>
   length (specDecryptChain md5 secret prev cipher) = length cipher"
proof (induction md5 secret prev cipher rule: specDecryptChain.induct)
  case (1 md5 secret prev cipher)
  show ?case
  proof (cases "length cipher < 16")
    case True
    with "1.prems" show ?thesis by (simp add: specDecryptChain.simps)
  next
    case False
    have m: "length (drop 16 cipher) mod 16 = 0"
      using "1.prems"(2) False by (simp add: mod_diff_right_eq [symmetric] le_mod_geq)
    have d: "length (md5 (secret @ prev)) = 16"
      using "1.prems"(1) by (simp add: digest16_def)
    from "1.IH" [OF False "1.prems"(1) m] False d show ?thesis
      by (subst specDecryptChain.simps) simp
  qed
qed

lemma unat_byte_of_nat: "unat (of_nat n :: byte) = n mod 256"
  by (simp add: unat_of_nat)

lemma initialLen_le: "((of_nat n :: byte) \<le> numeral k) = (n mod 256 \<le> unat (numeral k :: byte))"
  by (simp only: word_le_nat_alt unat_byte_of_nat)

lemma initialLen_le1: "((of_nat n :: byte) \<le> 1) = (n mod 256 \<le> 1)"
  by (simp add: word_le_nat_alt unat_byte_of_nat)

lemma SaltDecryptData_short:
  "length data \<le> 1 \<Longrightarrow>
   SaltDecryptData md5 data authenticator authSpare secret = Inl (Error SaltTooShort)"
  by (simp add: SaltDecryptData_def initialLen_le1)

lemma SaltDecryptData_empty:
  "2 \<le> length data \<Longrightarrow> length data \<le> 17 \<Longrightarrow>
   SaltDecryptData md5 data authenticator authSpare secret = Inr []"
  by (simp add: SaltDecryptData_def initialLen_le1 initialLen_le)

lemma SaltDecryptData_chain:
  assumes "digest16 md5" "length authenticator = 16"
    and "18 \<le> length data" "length data \<le> 255" "(length data - 2) mod 16 = 0"
  shows "SaltDecryptData md5 data authenticator authSpare secret
           = specSaltDecrypt md5 data authenticator secret"
proof -
  let ?n = "length data"
  let ?prev = "authenticator @ take 2 data"
  let ?plain = "specDecryptChain md5 secret ?prev (drop 2 data)"
  have a: "go_slice authenticator authSpare 0 16 = Inr authenticator"
    using assms(2) by (simp add: go_slice_def)
  have c1: "\<not> (of_nat ?n :: byte) \<le> 1" using assms(3,4) by (simp add: initialLen_le1)
  have c2: "\<not> (of_nat ?n :: byte) \<le> 17" using assms(3,4) by (simp add: initialLen_le)
  have p: "go_copy (replicate 16 0) authenticator @ go_copy (replicate 2 0) (take 2 data) = ?prev"
    using assms(2,3) by simp
  have m: "length (drop 2 data) mod 16 = 0" using assms(5) by simp
  have ne: "drop 2 data \<noteq> []" using assms(3) by simp
  have loop: "saltDecryptLoop md5 secret ?prev (replicate 16 0) (drop 2 data) [] = Inr ?plain"
    using saltDecryptLoop_chain [OF assms(1) _ m ne, of "replicate 16 0" secret ?prev "[]"] by simp
  have lp: "length ?plain = ?n - 2"
    using length_specDecryptChain [OF assms(1) m] by simp
  have three: "(3::byte) \<le> of_nat ?n"
    using assms(3,4) by (simp add: word_le_nat_alt unat_byte_of_nat)
  have u: "unat ((of_nat ?n :: byte) - 3) = ?n - 3"
    using assms(3,4) by (simp add: unat_sub [OF three] unat_byte_of_nat)
  have cmp: "(hd ?plain > (of_nat ?n :: byte) - 3) = (unat (hd ?plain) > ?n - 3)"
    by (simp add: word_less_nat_alt u)
  show ?thesis
    unfolding SaltDecryptData_def specSaltDecrypt_def Let_def
    using c1 c2 a p loop cmp by simp
qed

lemma saltDecryptLoop_length:
  "length hash = 16 \<Longrightarrow> saltDecryptLoop md5 secret prev hash data res = Inr r \<Longrightarrow>
   length r = length res + length data"
proof (induction "length data" arbitrary: data prev hash res rule: less_induct)
  case less
  let ?h1 = "go_copy hash (md5 (secret @ prev))"
  let ?h2 = "map2 (XOR) ?h1 (take (length ?h1) data)"
  have h1: "length ?h1 = 16" using less.prems(1) by simp
  have len: "16 \<le> length data"
    using less.prems(2) h1 by (subst (asm) saltDecryptLoop.simps) (simp add: Let_def split: if_splits)
  have h2: "length ?h2 = 16" using h1 len by simp
  show ?case
  proof (cases "length data = 16")
    case True
    with less.prems(2) h1 have "r = res @ ?h2"
      by (subst (asm) saltDecryptLoop.simps) (simp add: Let_def)
    with h2 True show ?thesis by simp
  next
    case False
    with less.prems(2) h1 len
    have rec: "saltDecryptLoop md5 secret (take 16 data) ?h2 (drop 16 data) (res @ ?h2) = Inr r"
      by (subst (asm) saltDecryptLoop.simps) (simp add: Let_def)
    have "length r = length (res @ ?h2) + length (drop 16 data)"
      by (rule less.hyps [OF _ h2 rec]) (use len in simp)
    with h2 len show ?thesis by simp
  qed
qed

lemma SaltDecryptData_take_in_range:
  assumes "\<not> (of_nat (length data) :: byte) \<le> 17"
    and "saltDecryptLoop md5 secret prev (replicate 16 0) (drop 2 data) [] = Inr result"
    and "\<not> hd result > (of_nat (length data) :: byte) - 3"
  shows "unat (hd result) \<le> length (tl result)"
proof -
  let ?n = "length data"
  have i18: "18 \<le> ?n mod 256" using assms(1) by (simp add: initialLen_le)
  then have n18: "18 \<le> ?n" using mod_less_eq_dividend [of ?n 256] by linarith
  have "length result = ?n - 2"
    using saltDecryptLoop_length [OF _ assms(2)] by simp
  then have lt: "length (tl result) = ?n - 3" by simp
  have three: "(3::byte) \<le> of_nat ?n"
    using i18 by (simp add: word_le_nat_alt unat_byte_of_nat)
  have u: "unat ((of_nat ?n :: byte) - 3) = ?n mod 256 - 3"
    by (simp add: unat_sub [OF three] unat_byte_of_nat)
  from assms(3) have "unat (hd result) \<le> ?n mod 256 - 3"
    by (simp add: word_less_nat_alt u)
  also have "\<dots> \<le> ?n - 3" using mod_less_eq_dividend [of ?n 256] by linarith
  finally show ?thesis using lt by simp
qed

lemma div16_round_up: "n mod 16 \<noteq> 0 \<Longrightarrow> (n + 15) div 16 = n div 16 + (1::nat)"
proof -
  assume a: "n mod 16 \<noteq> 0"
  define q where "q = n div 16"
  define r where "r = n mod 16"
  have n: "n = 16 * q + r" by (simp add: q_def r_def)
  have r: "1 \<le> r" "r < 16" using a by (simp_all add: r_def)
  have "n + 15 = (r - 1) + (q + 1) * 16" using n r by simp
  then have "(n + 15) div 16 = (r - 1) div 16 + (q + 1)"
    by (simp only: div_mult_self1 [of 16 "r - 1" "q + 1"] div_mult_self3)
  with r show ?thesis by (simp add: q_def)
qed

lemma EncryptData_length:
  assumes "digest16 md5"
  shows "map_sum id length (EncryptData md5 data authenticator secret)
           = Inr (length data + 16 - length data mod 16)"
proof -
  let ?init = "data @ replicate (16 - length data mod 16) (0::byte)"
  have "length ?init = 16 * (length data div 16 + 1)" by (simp, presburger)
  then have m: "length ?init mod 16 = 0" by simp
  show ?thesis
    unfolding EncryptData_chain [OF assms]
    using length_specEncryptChain [OF assms m] by simp
qed

lemma decryptChain_EncryptData:
  assumes "digest16 md5" "length authenticator = 16"
    and "EncryptData md5 data authenticator secret = Inr c"
  shows "decryptChain md5 c authenticator secret
           = Inr (data @ replicate (16 - length data mod 16) 0)"
proof -
  let ?init = "data @ replicate (16 - length data mod 16) (0::byte)"
  have c: "c = specEncryptChain md5 secret authenticator ?init"
    using assms(3) unfolding EncryptData_chain [OF assms(1)] by simp
  have "length ?init = 16 * (length data div 16 + 1)" by (simp, presburger)
  then have m: "length ?init mod 16 = 0" by simp
  have lc: "length c = length ?init"
    unfolding c by (rule length_specEncryptChain [OF assms(1) m])
  have ne: "c \<noteq> []" using lc by auto
  have a: "go_copy (replicate 16 0) authenticator = authenticator"
    using assms(2) by simp
  have "decryptChain md5 c authenticator secret
          = Inr (specDecryptChain md5 secret authenticator c)"
    unfolding decryptChain_def a
    using decryptLoop_chain [OF assms(1) _ assms(2) _ ne, of "replicate 16 0" secret "[]"] lc m
    by simp
  then show ?thesis
    unfolding c using spec_chain_roundtrip [OF assms(1) m] by simp
qed

text \<open>
  C3. For every plaintext \<open>P\<close> of length at least 1 whose final byte is non-zero, every
  16-byte authenticator \<open>A\<close> and every secret \<open>S\<close>: \<open>EncryptData\<close> returns a ciphertext and
  \<open>DecryptData\<close> of that ciphertext, with the same \<open>A\<close> and \<open>S\<close>, returns \<open>P\<close>.
\<close>

theorem DecryptData_EncryptData:
  assumes "digest16 md5" and "P \<noteq> []" and "last P \<noteq> 0" and "length A = 16"
  shows "\<exists>c. EncryptData md5 P A S = Inr c \<and> DecryptData md5 c A S = Inr P"
proof -
  obtain c where c: "EncryptData md5 P A S = Inr c"
    using EncryptData_chain [OF assms(1), of P A S] by simp
  have "decryptChain md5 c A S = Inr (P @ replicate (16 - length P mod 16) 0)"
    by (rule decryptChain_EncryptData [OF assms(1,4) c])
  then have "DecryptData md5 c A S = Inr P"
    by (simp add: DecryptData_def stripZeros_padding [OF assms(2,3)])
  with c show ?thesis by blast
qed

theorem DecryptData_EncryptData_witness:
  "digest16 sampleDigest \<and> [1, 2, 3 :: byte] \<noteq> [] \<and> last [1, 2, 3 :: byte] \<noteq> 0
   \<and> length (replicate 16 (7 :: byte)) = 16
   \<and> (\<exists>c. EncryptData sampleDigest [1, 2, 3] (replicate 16 7) [9] = Inr c
          \<and> DecryptData sampleDigest c (replicate 16 7) [9] = Inr [1, 2, 3])"
  using DecryptData_EncryptData [OF digest16_sampleDigest, of "[1, 2, 3]" "replicate 16 7" "[9]"]
    digest16_sampleDigest
  by simp

text \<open>
  C4, as the code has it. For every plaintext \<open>P\<close>, authenticator \<open>A\<close> and secret \<open>S\<close>,
  \<open>EncryptData\<close> returns \<open>16 \<cdot> (|P| div 16 + 1)\<close> bytes, the smallest multiple of 16
  strictly greater than \<open>|P|\<close>: the padded length \<open>\<lceil>|P|/16\<rceil> \<cdot> 16\<close> when \<open>|P|\<close> is not a
  multiple of 16, and \<open>|P| + 16\<close> when it is.
\<close>

theorem EncryptData_output_length:
  assumes "digest16 md5"
  shows "\<exists>c. EncryptData md5 P A S = Inr c
           \<and> length c = 16 * (length P div 16 + 1)
           \<and> length c = (if length P mod 16 = 0 then length P + 16
                          else specPaddedLength (length P))"
proof -
  obtain c where c: "EncryptData md5 P A S = Inr c"
    using EncryptData_chain [OF assms, of P A S] by simp
  have l: "length c = length P + 16 - length P mod 16"
    using EncryptData_length [OF assms, of P A S] c by simp
  have e1: "length P + 16 - length P mod 16 = 16 * (length P div 16 + 1)" by presburger
  have e2: "length P + 16 - length P mod 16 =
      (if length P mod 16 = 0 then length P + 16 else specPaddedLength (length P))"
  proof (cases "length P mod 16 = 0")
    case True
    then show ?thesis by simp
  next
    case False
    then show ?thesis using e1 by (simp add: specPaddedLength_def div16_round_up)
  qed
  have "length c = 16 * (length P div 16 + 1)" using l e1 by simp
  moreover have "length c = (if length P mod 16 = 0 then length P + 16
                          else specPaddedLength (length P))" using l e2 by simp
  ultimately show ?thesis using c by blast
qed

theorem EncryptData_output_length_witness:
  "digest16 sampleDigest
   \<and> (\<exists>c. EncryptData sampleDigest (replicate 16 1) (replicate 16 0) [] = Inr c
          \<and> length c = 32)"
  using EncryptData_output_length [OF digest16_sampleDigest, of "replicate 16 1" "replicate 16 0" "[]"]
    digest16_sampleDigest
  by simp

text \<open>
  C4, as stated, fails: a plaintext of 16 bytes is encrypted to 32 bytes, while the smallest
  multiple of 16 that is at least 16 is 16.
\<close>

theorem EncryptData_length_counterexample:
  "map_sum id length (EncryptData sampleDigest (replicate 16 1) (replicate 16 0) []) = Inr 32
   \<and> specPaddedLength (length (replicate 16 (1 :: byte))) = 16"
  by (simp add: EncryptData_length [OF digest16_sampleDigest] specPaddedLength_def)

text \<open>
  C9. Whenever the decryption chain of \<open>DecryptData\<close> recovers only zero bytes, the
  zero-stripping loop empties the result, reads index \<open>-1\<close> and panics: \<open>DecryptData\<close>
  returns neither an empty plaintext nor an error.
\<close>

theorem DecryptData_all_zero_panics:
  assumes "decryptChain md5 data A S = Inr r" and "\<forall>b \<in> set r. b = 0"
  shows "DecryptData md5 data A S = Inl Panic"
proof -
  have "r = replicate (length r) 0"
    using assms(2) by (simp add: replicate_length_same)
  then have "stripZeros r = Inl Panic"
    using stripZeros_all_zero [of "length r"] by simp
  with assms(1) show ?thesis by (simp add: DecryptData_def)
qed

theorem DecryptData_all_zero_panics_witness:
  "decryptChain sampleDigest [16, 17, 18, 19, 20, 21, 22, 23, 24, 25, 26, 27, 28, 29, 30, 31]
      (replicate 16 0) [] = Inr (replicate 16 0)
   \<and> DecryptData sampleDigest [16, 17, 18, 19, 20, 21, 22, 23, 24, 25, 26, 27, 28, 29, 30, 31]
        (replicate 16 0) [] = Inl Panic"
proof -
  have h: "decryptChain sampleDigest [16, 17, 18, 19, 20, 21, 22, 23, 24, 25, 26, 27, 28, 29, 30, 31]
      (replicate 16 0) [] = Inr (replicate 16 0)"
    by code_simp
  have z: "\<forall>b \<in> set (replicate 16 (0 :: byte)). b = 0" by simp
  show ?thesis using DecryptData_all_zero_panics [OF h z] h by simp
qed

text \<open>
  Conversely, a chain result with a non-zero byte is returned up to its last non-zero byte:
  \<open>DecryptData\<close> returns a value exactly when the chain returns bytes that are not all zero.
\<close>

lemma stripZeros_nonzero:
  "\<exists>b \<in> set r. b \<noteq> 0 \<Longrightarrow> \<exists>p. stripZeros r = Inr p"
proof (induction r rule: rev_induct)
  case Nil
  then show ?case by simp
next
  case (snoc x xs)
  show ?case
  proof (cases "x = 0")
    case True
    with snoc.prems have "\<exists>b \<in> set xs. b \<noteq> 0" by auto
    from snoc.IH [OF this] obtain p where "stripZeros xs = Inr p" by blast
    moreover have "stripZeros (xs @ [x]) = stripZeros xs"
      using True by (subst stripZeros.simps) simp
    ultimately show ?thesis by simp
  next
    case False
    then have "stripZeros (xs @ [x]) = Inr (xs @ [x])"
      by (subst stripZeros.simps) simp
    then show ?thesis by blast
  qed
qed

lemma DecryptData_returns_iff:
  "(\<exists>p. DecryptData md5 data A S = Inr p)
     = (\<exists>r. decryptChain md5 data A S = Inr r \<and> (\<exists>b \<in> set r. b \<noteq> 0))"
proof (cases "decryptChain md5 data A S")
  case (Inl e)
  then show ?thesis by (simp add: DecryptData_def)
next
  case (Inr r)
  show ?thesis
  proof (cases "\<exists>b \<in> set r. b \<noteq> 0")
    case True
    with stripZeros_nonzero [OF True] Inr show ?thesis by (simp add: DecryptData_def)
  next
    case False
    then have "r = replicate (length r) 0" by (simp add: replicate_length_same)
    then have "stripZeros r = Inl Panic" using stripZeros_all_zero [of "length r"] by simp
    with False Inr show ?thesis by (simp add: DecryptData_def)
  qed
qed

text \<open>
  The example of C9: the encryption of an all-zero plaintext (of any length, the empty one
  included) is a ciphertext on which \<open>DecryptData\<close> panics.
\<close>

lemma DecryptData_EncryptData_zero_plaintext:
  assumes "digest16 md5" and "length A = 16"
  shows "\<exists>c. EncryptData md5 (replicate n 0) A S = Inr c \<and> DecryptData md5 c A S = Inl Panic"
proof -
  obtain c where c: "EncryptData md5 (replicate n 0) A S = Inr c"
    using EncryptData_chain [OF assms(1), of "replicate n 0" A S] by simp
  have "decryptChain md5 c A S = Inr (replicate n 0 @ replicate (16 - n mod 16) 0)"
    using decryptChain_EncryptData [OF assms c] by simp
  then have "DecryptData md5 c A S = Inl Panic"
    using stripZeros_all_zero [of "n + (16 - n mod 16)"]
    unfolding replicate_add by (simp add: DecryptData_def)
  with c show ?thesis by blast
qed

text \<open>
  The inputs on which \<open>SaltDecryptData\<close> does what the specification describes. For a
  16-byte authenticator: an input of at most 1 byte gives
  the decode error, an input of 2 to 17 bytes the empty plaintext, and an input of 18 to
  255 bytes made of the salt and whole 16-byte blocks gives what the specification
  describes: the first recovered byte \<open>L\<close> is the declared length, the next \<open>L\<close> bytes are
  returned, and the call fails exactly when \<open>L\<close> exceeds the input length minus 3.
\<close>

lemma SaltDecryptData_cases:
  assumes "digest16 md5" and "length authenticator = 16" and "length data \<le> 255"
    and "length data \<le> 17 \<or> (length data - 2) mod 16 = 0"
  shows "SaltDecryptData md5 data authenticator authSpare secret =
           (if length data \<le> 1 then Inl (Error SaltTooShort)
            else if length data \<le> 17 then Inr []
            else specSaltDecrypt md5 data authenticator secret)"
proof -
  consider "length data \<le> 1" | "2 \<le> length data" "length data \<le> 17" | "18 \<le> length data"
    by linarith
  then show ?thesis
  proof cases
    case 1
    then show ?thesis by (simp add: SaltDecryptData_short)
  next
    case 2
    then show ?thesis by (simp add: SaltDecryptData_empty)
  next
    case 3
    with assms(4) have m: "(length data - 2) mod 16 = 0" by simp
    show ?thesis
      using SaltDecryptData_chain [OF assms(1,2) 3 assms(3) m] 3 by simp
  qed
qed

text \<open>
  After the salt the loop reads whole blocks of 16 bytes: when the bytes left are not a
  multiple of 16, \<open>hash[i] ^= (*data)[i]\<close> runs past the end of the last, partial block.
\<close>

lemma saltDecryptLoop_partial_block:
  "length hash = 16 \<Longrightarrow> length data mod 16 \<noteq> 0 \<Longrightarrow>
   saltDecryptLoop md5 secret prev hash data res = Inl Panic"
proof (induction "length data" arbitrary: data prev hash res rule: less_induct)
  case less
  let ?h1 = "go_copy hash (md5 (secret @ prev))"
  let ?h2 = "map2 (XOR) ?h1 (take (length ?h1) data)"
  have h1: "length ?h1 = 16" using less.prems(1) by simp
  show ?case
  proof (cases "length data < 16")
    case True
    with h1 show ?thesis by (subst saltDecryptLoop.simps) (simp add: Let_def)
  next
    case False
    then have len: "16 \<le> length data" by simp
    have h2: "length ?h2 = 16" using h1 len by simp
    have m: "length (drop 16 data) mod 16 \<noteq> 0"
      using less.prems(2) len by (simp add: mod_diff_right_eq [symmetric] le_mod_geq)
    then have ne: "length (drop 16 data) \<noteq> 0" by (metis mod_0)
    have "saltDecryptLoop md5 secret prev hash data res
            = saltDecryptLoop md5 secret (take 16 data) ?h2 (drop 16 data) (res @ ?h2)"
      using h1 len ne by (subst saltDecryptLoop.simps) (simp add: Let_def)
    also have "\<dots> = Inl Panic"
      by (rule less.hyps [OF _ h2 m]) (use len in simp)
    finally show ?thesis .
  qed
qed

text \<open>
  The length tests are made on \<open>uint8(len(*data))\<close>: an input of 258 bytes (the salt and 16
  blocks) has \<open>uint8(258) = 2\<close> and is answered with the empty plaintext and no error, where
  the inverse chain recovers a declared length of 18 and the 18 bytes after it.
\<close>

lemma SaltDecryptData_truncated_length:
  "SaltDecryptData sampleDigest (replicate 258 0) (replicate 16 0) [] [] = Inr []
   \<and> specSaltDecrypt sampleDigest (replicate 258 0) (replicate 16 0) []
       = Inr [19, 20, 21, 22, 23, 24, 25, 26, 27, 28, 29, 30, 31, 32, 33, 16, 17, 18]"
  by code_simp

text \<open>
  C5 does not hold of the code. The claim has \<open>SaltDecryptData\<close> decrypt every input of 18
  bytes or more, or fail with an error when the declared length is too large. For every
  digest function, 16-byte authenticator and secret, an input of 18 to 255 bytes that is
  not the salt followed by whole 16-byte blocks makes \<open>SaltDecryptData\<close> panic with an
  index out of range in the last round of its loop: no plaintext and no error value is
  returned.
\<close>

theorem SaltDecryptData_partial_block_panics:
  assumes "length authenticator = 16" and "18 \<le> length data" and "length data \<le> 255"
    and "(length data - 2) mod 16 \<noteq> 0"
  shows "SaltDecryptData md5 data authenticator authSpare secret = Inl Panic"
proof -
  have a: "go_slice authenticator authSpare 0 16 = Inr authenticator"
    using assms(1) by (simp add: go_slice_def)
  have c1: "\<not> (of_nat (length data) :: byte) \<le> 1" using assms(2,3) by (simp add: initialLen_le1)
  have c2: "\<not> (of_nat (length data) :: byte) \<le> 17" using assms(2,3) by (simp add: initialLen_le)
  have m: "length (drop 2 data) mod 16 \<noteq> 0" using assms(4) by simp
  have "saltDecryptLoop md5 secret
          (go_copy (replicate 16 0) authenticator @ go_copy (replicate 2 0) (take 2 data))
          (replicate 16 0) (drop 2 data) [] = Inl Panic"
    by (rule saltDecryptLoop_partial_block [OF _ m]) simp
  then show ?thesis
    unfolding SaltDecryptData_def Let_def using c1 c2 a by simp
qed

theorem SaltDecryptData_partial_block_panics_witness:
  "SaltDecryptData sampleDigest (replicate 19 0) (replicate 16 0) [] [] = Inl Panic"
  using SaltDecryptData_partial_block_panics
    [of "replicate 16 0" "replicate 19 0" sampleDigest "[]" "[]"]
  by simp

section \<open>Properties of the scalar codec and the dictionary loader\<close>

lemma VerifyOriginalValue_Integer:
  "VerifyOriginalValue utf8Valid ipString radAttr Integer = (length (ra_value radAttr) = 4)"
  by (simp add: VerifyOriginalValue_def BytesToInteger_def)

lemma VerifyOriginalValue_Date:
  "VerifyOriginalValue utf8Valid ipString radAttr Date = (length (ra_value radAttr) = 4)"
  by (simp add: VerifyOriginalValue_def BytesToTimestamp_def)

text \<open>
  C7. \<open>VerifyOriginalValue\<close> accepts an \<open>integer\<close> and a \<open>time\<close> value exactly when it
  has 4 bytes (the two lemmas above). For \<open>integer64\<close> the switch has no case: the call
  returns \<open>false\<close> for every value, also for the 8-byte values that \<open>BytesToInteger64\<close>
  decodes.
\<close>

theorem VerifyOriginalValue_Integer64:
  "VerifyOriginalValue utf8Valid ipString radAttr Integer64 = False
   \<and> snd (BytesToInteger64 (ra_value radAttr)) = (length (ra_value radAttr) = 8)"
  by (simp add: VerifyOriginalValue_def BytesToInteger64_def)

text \<open>
  C8. On the empty string \<open>net.ParseIP\<close> returns \<open>nil\<close>. \<open>IPv6StringToBytes\<close> then
  returns an empty byte vector and no error, and \<open>IPv4StringToBytes\<close> panics on
  \<open>nil[12:]\<close>: neither returns an error value.
\<close>

theorem StringToBytes_empty:
  assumes "parseIP [] = None"
  shows "IPv6StringToBytes parseIP [] = Inr [] \<and> IPv4StringToBytes parseIP [] = Inl Panic"
  using assms by (simp add: IPv6StringToBytes_def IPv4StringToBytes_def)

lemma sampleParseIP_empty: "sampleParseIP [] = None"
  by (simp add: sampleParseIP_def)

theorem StringToBytes_empty_witness:
  "sampleParseIP [] = None
   \<and> IPv6StringToBytes sampleParseIP [] = Inr [] \<and> IPv4StringToBytes sampleParseIP [] = Inl Panic"
  using StringToBytes_empty [of sampleParseIP] sampleParseIP_empty by simp

lemma parseAttribute_no_error: "parseAttribute p v a \<noteq> Inl (Error e)"
  by (simp add: parseAttribute_def split: option.splits)

lemma parseVendor_no_error: "parseVendor p v \<noteq> Inl (Error e)"
  by (simp add: parseVendor_def split: option.splits)

lemma parseValue_no_error: "parseValue p v a \<noteq> Inl (Error e)"
  by (simp add: parseValue_def)

lemma loadLine_failure: "loadLine tokenize line st = Inl f \<Longrightarrow> f = Panic"
proof (cases f)
  case Panic
  then show ?thesis by simp
next
  case (Error e)
  assume "loadLine tokenize line st = Inl f"
  with Error have "loadLine tokenize line st = Inl (Error e)" by simp
  then have False
    using parseAttribute_no_error [of "tokenize line" "ls_vendorName st" "ls_attributes st" e]
      parseVendor_no_error [of "tokenize line" "ls_vendors st" e]
      parseValue_no_error [of "tokenize line" "ls_vendorName st" "ls_values st" e]
    by (simp add: loadLine_def Let_def split: if_splits sum.splits)
  then show ?thesis ..
qed

lemma loadLine_badNumericLine:
  assumes "badNumericLine tokenize line"
  shows "loadLine tokenize line st = Inl Panic"
proof -
  from assms have ne: "tokenize line \<noteq> []" by (auto simp: badNumericLine_def)
  from assms show ?thesis
    unfolding badNumericLine_def loadLine_def Let_def
    using ne by (auto simp: parseAttribute_def parseVendor_def)
qed

lemma loadLine_formedLine:
  assumes "formedLine tokenize line"
  shows "\<exists>st'. loadLine tokenize line st = Inr st'"
proof (cases "line = [] \<or> hasCommentPrefix line")
  case True
  then show ?thesis by (auto simp: loadLine_def)
next
  case False
  with assms have ne: "tokenize line \<noteq> []"
    and f: "if tokenize line ! 0 = ''ATTRIBUTE''
          then 4 \<le> length (tokenize line) \<and> ParseUint8 (tokenize line ! 2) \<noteq> None
        else if tokenize line ! 0 = ''VALUE'' then 4 \<le> length (tokenize line)
        else if tokenize line ! 0 = ''VENDOR''
          then 3 \<le> length (tokenize line) \<and> ParseUint8 (tokenize line ! 2) \<noteq> None
        else if tokenize line ! 0 = ''BEGIN-VENDOR'' then 2 \<le> length (tokenize line)
        else True"
    by (auto simp: formedLine_def)
  from False ne f show ?thesis
    unfolding loadLine_def Let_def
    by (auto simp: parseAttribute_def parseValue_def parseVendor_def
        split: if_splits option.splits)
qed

lemma loadLines_formedLines:
  "list_all (formedLine tokenize) before \<Longrightarrow> \<exists>st'. loadLines tokenize before st = Inr st'"
proof (induction before arbitrary: st)
  case Nil
  then show ?case by simp
next
  case (Cons l ls)
  from Cons.prems have "formedLine tokenize l" and r: "list_all (formedLine tokenize) ls"
    by simp_all
  from loadLine_formedLine [OF this(1), of st] obtain st1
    where "loadLine tokenize l st = Inr st1" by blast
  with Cons.IH [OF r, of st1] show ?case by simp
qed

lemma loadLines_append:
  "loadLines tokenize (xs @ ys) st =
     (case loadLines tokenize xs st of
        Inl e \<Rightarrow> Inl e
      | Inr st' \<Rightarrow> loadLines tokenize ys st')"
  by (induction xs arbitrary: st) (simp_all split: sum.splits)

text \<open>
  C6, as the code has it. When the file opens and the scanner yields lines in the forms of
  the dictionary format and then an \<open>ATTRIBUTE\<close> or \<open>VENDOR\<close> line whose numeric field does
  not parse as a decimal number in \<open>0 .. 255\<close>, the loader reaches that line and
  \<open>parseAttribute\<close> or \<open>parseVendor\<close> ends in \<open>panic(err)\<close>: \<open>DictionaryFromFile\<close> returns
  neither a dictionary, partial or whole, nor an error value.
\<close>

theorem DictionaryFromFile_bad_number_panics:
  assumes "list_all (formedLine tokenize) before" and "badNumericLine tokenize line"
  shows "\<exists>st. loadLines tokenize before
                \<lparr>ls_attributes = [], ls_values = [], ls_vendors = [], ls_vendorName = []\<rparr>
              = Inr st
            \<and> loadLine tokenize line st = Inl Panic
            \<and> DictionaryFromFile tokenize (Some (before @ line # rest, scanErr)) = Inl Panic"
proof -
  from loadLines_formedLines [OF assms(1)] obtain st where
    st: "loadLines tokenize before
           \<lparr>ls_attributes = [], ls_values = [], ls_vendors = [], ls_vendorName = []\<rparr> = Inr st"
    by blast
  have l: "loadLine tokenize line st = Inl Panic"
    by (rule loadLine_badNumericLine [OF assms(2)])
  have "DictionaryFromFile tokenize (Some (before @ line # rest, scanErr)) = Inl Panic"
    by (simp add: DictionaryFromFile_def loadLines_append st l)
  with st l show ?thesis by blast
qed

theorem DictionaryFromFile_bad_number_panics_witness:
  "DictionaryFromFile asciiFields
     (Some ([''# dictionary'', ''ATTRIBUTE User-Name 1 text''] @ ''VENDOR Somevendor ten''
            # [''END-VENDOR''], False)) = Inl Panic"
proof -
  have f: "list_all (formedLine asciiFields) [''# dictionary'', ''ATTRIBUTE User-Name 1 text'']"
    by code_simp
  have b: "badNumericLine asciiFields ''VENDOR Somevendor ten''" by code_simp
  from DictionaryFromFile_bad_number_panics [OF f b, of "[''END-VENDOR'']" False]
  show ?thesis by blast
qed

text \<open>
  C6, as stated, fails: on a file whose only line is \<open>ATTRIBUTE User-Name 256 text\<close> the
  call does not return an error value, it panics.
\<close>

theorem DictionaryFromFile_counterexample:
  "DictionaryFromFile asciiFields (Some ([''ATTRIBUTE User-Name 256 text''], False)) = Inl Panic"
  by code_simp

section \<open>Properties of the packet codec\<close>

lemma typeCode_roundtrip: "typeCodeToUint8 c = Some b \<Longrightarrow> typeCodeFromUint8 b = Some c"
  by (auto simp: typeCodeToUint8_def typeCodeFromUint8_def TypeCode_defs split: if_splits)

lemma unat_length_byte: "n \<le> 253 \<Longrightarrow> unat (of_nat (2 + n) :: byte) = 2 + n"
proof -
  assume "n \<le> 253"
  then have "(2 + n) mod 256 = 2 + n" by simp
  moreover have "unat (of_nat (2 + n) :: byte) = (2 + n) mod 256"
    by (simp only: unat_of_nat) simp
  ultimately show ?thesis by simp
qed

lemma parseAttributes_end: "parseAttributes dictionary bytes spare (length bytes) acc = Inr acc"
  by (subst parseAttributes.simps) simp

lemma parseAttributes_step:
  assumes "unat l = 2 + length v" and "CreateRadAttributeByID dictionary i v = Some x"
  shows "parseAttributes dictionary (pre @ [i, l] @ v @ rest) spare (length pre) acc
           = parseAttributes dictionary (pre @ [i, l] @ v @ rest) spare
               (length pre + 2 + length v) (acc @ [x])"
proof -
  let ?bytes = "pre @ [i, l] @ v @ rest"
  have i: "?bytes ! length pre = i" by (simp add: nth_append)
  have l: "?bytes ! (length pre + 1) = l" by (simp add: nth_append)
  have s: "go_slice ?bytes spare (length pre + 2) (length pre + unat l) = Inr v"
    using assms(1) by (simp add: go_slice_def)
  show ?thesis
    apply (subst parseAttributes.simps)
    unfolding Let_def i l s
    using assms by (simp add: add.assoc)
qed

lemma parseAttributes_prefix:
  assumes "list_all (decodableAttribute dictionary) as"
  shows "parseAttributes dictionary (pre @ concat (map toBytes as) @ rest) spare (length pre) acc
           = parseAttributes dictionary (pre @ concat (map toBytes as) @ rest) spare
               (length pre + length (concat (map toBytes as)))
               (acc @ map (\<lambda>a. the (CreateRadAttributeByID dictionary (ra_id a) (ra_value a))) as)"
  using assms
proof (induction as arbitrary: pre acc)
  case Nil
  then show ?case by simp
next
  case (Cons a as)
  let ?v = "ra_value a"
  let ?l = "of_nat (2 + length ?v) :: byte"
  let ?tail = "concat (map toBytes as) @ rest"
  let ?res = "map (\<lambda>a. the (CreateRadAttributeByID dictionary (ra_id a) (ra_value a)))"
  define bytes where "bytes = pre @ concat (map toBytes (a # as)) @ rest"
  from Cons.prems have da: "decodableAttribute dictionary a"
    and rest: "list_all (decodableAttribute dictionary) as"
    by simp_all
  from da have len: "length ?v \<le> 253"
    and res: "CreateRadAttributeByID dictionary (ra_id a) ?v \<noteq> None"
    by (simp_all add: decodableAttribute_def)
  from res obtain x where x: "CreateRadAttributeByID dictionary (ra_id a) ?v = Some x" by auto
  have b1: "bytes = pre @ [ra_id a, ?l] @ ?v @ ?tail"
    unfolding bytes_def toBytes_def by (simp del: of_nat_add)
  have b2: "bytes = (pre @ toBytes a) @ ?tail"
    unfolding bytes_def by simp
  have lt: "length (pre @ toBytes a) = length pre + 2 + length ?v" by (simp add: toBytes_def)
  have ll: "length (pre @ toBytes a) + length (concat (map toBytes as))
              = length pre + length (concat (map toBytes (a # as)))" by simp
  have rs: "(acc @ [x]) @ ?res as = acc @ ?res (a # as)" using x by simp
  have "parseAttributes dictionary bytes spare (length pre) acc
      = parseAttributes dictionary bytes spare (length pre + 2 + length ?v) (acc @ [x])"
    unfolding b1 by (rule parseAttributes_step [OF unat_length_byte [OF len] x])
  also have "\<dots> = parseAttributes dictionary bytes spare (length (pre @ toBytes a)) (acc @ [x])"
    unfolding lt ..
  also have "\<dots> = parseAttributes dictionary bytes spare
          (length (pre @ toBytes a) + length (concat (map toBytes as))) ((acc @ [x]) @ ?res as)"
    unfolding b2 by (rule Cons.IH [OF rest])
  finally show ?case
    unfolding ll rs bytes_def .
qed

text \<open>
  The conditions above, worded without the code, are the ones the code tests:
  \<open>typeCodeToUint8\<close> accepts exactly the fourteen codes, and \<open>CreateRadAttributeByID\<close>
  names an attribute after the first dictionary entry with its id.
\<close>

lemma typeCodeToUint8_known: "(typeCodeToUint8 c \<noteq> None) = (c \<in> set knownTypeCodes)"
  by (simp add: typeCodeToUint8_def knownTypeCodes_def)

lemma typeCodeFromUint8_known: "typeCodeFromUint8 b = Some c \<Longrightarrow> c \<in> set knownTypeCodes"
  by (auto simp: typeCodeFromUint8_def knownTypeCodes_def split: if_splits)

lemma CreateRadAttributeByID_dictionaryName:
  "CreateRadAttributeByID dictionary i v =
     map_option (\<lambda>n. \<lparr>ra_id = i, ra_name = n, ra_value = v\<rparr>) (dictionaryName dictionary i)"
  by (simp add: CreateRadAttributeByID_def dictionaryName_def split: option.splits)

lemma wellFormedAttribute_iff:
  "wellFormedAttribute dictionary a =
     (length (ra_value a) \<le> 253 \<and>
      CreateRadAttributeByID dictionary (ra_id a) (ra_value a) = Some a)"
  by (cases a) (auto simp: wellFormedAttribute_def CreateRadAttributeByID_dictionaryName)

lemma resolvableAttribute_iff:
  "resolvableAttribute dictionary a = decodableAttribute dictionary a"
  by (simp add: resolvableAttribute_def decodableAttribute_def
      CreateRadAttributeByID_dictionaryName)

lemma wellFormed_decodable:
  "wellFormedAttribute dictionary a \<Longrightarrow> decodableAttribute dictionary a"
  by (simp add: wellFormedAttribute_iff decodableAttribute_def)

lemma wellFormed_resolved:
  "list_all (wellFormedAttribute dictionary) as \<Longrightarrow>
   map (\<lambda>a. the (CreateRadAttributeByID dictionary (ra_id a) (ra_value a))) as = as"
  by (induction as) (simp_all add: wellFormedAttribute_iff)

lemma ToBytes_wellFormed:
  assumes "typeCodeToUint8 (rp_code p) = Some c" and "length (rp_authenticator p) = 16"
  shows "ToBytes draws p =
           (p, Some ([c, rp_id p]
                     @ packetLengthToBytes (of_nat (20 + length (concat (map toBytes (rp_attributes p)))))
                     @ rp_authenticator p @ concat (map toBytes (rp_attributes p))))"
  using assms by (simp add: ToBytes_def Let_def)

lemma Initialise_header:
  assumes "length hdr = 20" and "typeCodeFromUint8 (hdr ! 0) = Some c"
  shows "InitialiseRadiusPacketFromBytes dictionary (hdr @ body) spare =
           (case parseAttributes dictionary (hdr @ body) spare 20 [] of
              Inl e \<Rightarrow> Inl e
            | Inr attrs \<Rightarrow>
                Inr \<lparr>rp_id = hdr ! 1, rp_code = c,
                     rp_authenticator = take 16 (drop 4 hdr), rp_attributes = attrs\<rparr>)"
proof -
  have n0: "(hdr @ body) ! 0 = hdr ! 0" and n1: "(hdr @ body) ! 1 = hdr ! 1"
    using assms(1) by (simp_all add: nth_append)
  have t: "take 16 (drop 4 hdr) = drop 4 hdr" using assms(1) by simp
  show ?thesis
    unfolding InitialiseRadiusPacketFromBytes_def n0 n1 t
    using assms by (simp add: go_slice_def)
qed

text \<open>
  The decoder on the bytes of a packet whose attributes resolve: the packet comes back
  with every attribute under the name the dictionary gives its id.
\<close>

lemma Initialise_ToBytes_decoded:
  assumes c: "typeCodeToUint8 (rp_code p) = Some c"
    and a: "length (rp_authenticator p) = 16"
    and dec: "list_all (decodableAttribute dictionary) (rp_attributes p)"
  shows "\<exists>bs. ToBytes draws p = (p, Some bs) \<and>
           InitialiseRadiusPacketFromBytes dictionary bs spare =
             Inr (p\<lparr>rp_attributes :=
                       map (\<lambda>a. the (CreateRadAttributeByID dictionary (ra_id a) (ra_value a)))
                         (rp_attributes p)\<rparr>)"
proof -
  define body where "body = concat (map toBytes (rp_attributes p))"
  define hdr where
    "hdr = [c, rp_id p] @ packetLengthToBytes (of_nat (20 + length body)) @ rp_authenticator p"
  define decoded where
    "decoded = map (\<lambda>a. the (CreateRadAttributeByID dictionary (ra_id a) (ra_value a)))
                 (rp_attributes p)"
  have tb: "ToBytes draws p = (p, Some (hdr @ body))"
    using ToBytes_wellFormed [OF c a, of draws] by (simp add: hdr_def body_def)
  have lh: "length hdr = 20" using a by (simp add: hdr_def packetLengthToBytes_def)
  have h0: "typeCodeFromUint8 (hdr ! 0) = Some (rp_code p)"
    using typeCode_roundtrip [OF c] by (simp add: hdr_def)
  have h1: "hdr ! 1 = rp_id p" by (simp add: hdr_def)
  have h4: "take 16 (drop 4 hdr) = rp_authenticator p"
    using a by (simp add: hdr_def packetLengthToBytes_def)
  have "parseAttributes dictionary (hdr @ body @ []) spare (length hdr) []
          = parseAttributes dictionary (hdr @ body @ []) spare (length hdr + length body)
              ([] @ map (\<lambda>a. the (CreateRadAttributeByID dictionary (ra_id a) (ra_value a)))
                      (rp_attributes p))"
    unfolding body_def by (rule parseAttributes_prefix [OF dec])
  also have "\<dots> = parseAttributes dictionary (hdr @ body) spare (length (hdr @ body)) decoded"
    by (simp add: decoded_def)
  also have "\<dots> = Inr decoded"
    by (rule parseAttributes_end)
  finally have pa: "parseAttributes dictionary (hdr @ body) spare 20 [] = Inr decoded"
    using lh by simp
  have "InitialiseRadiusPacketFromBytes dictionary (hdr @ body) spare =
          Inr \<lparr>rp_id = hdr ! 1, rp_code = rp_code p,
               rp_authenticator = take 16 (drop 4 hdr), rp_attributes = decoded\<rparr>"
    unfolding Initialise_header [OF lh h0] pa by simp
  also have "\<dots> = Inr (p\<lparr>rp_attributes := decoded\<rparr>)"
    unfolding h1 h4 by simp
  finally show ?thesis using tb by (simp add: decoded_def)
qed

lemma Initialise_ToBytes:
  assumes "wellFormedPacket dictionary p"
  shows "\<exists>bs. ToBytes draws p = (p, Some bs) \<and>
           InitialiseRadiusPacketFromBytes dictionary bs spare = Inr p"
proof -
  from assms have k: "rp_code p \<in> set knownTypeCodes"
    and a: "length (rp_authenticator p) = 16"
    and wf: "list_all (wellFormedAttribute dictionary) (rp_attributes p)"
    by (simp_all add: wellFormedPacket_def)
  from k obtain c where c: "typeCodeToUint8 (rp_code p) = Some c"
    using typeCodeToUint8_known [of "rp_code p"] by auto
  have dec: "list_all (decodableAttribute dictionary) (rp_attributes p)"
    using wf by (simp add: list_all_iff wellFormed_decodable)
  have "p\<lparr>rp_attributes :=
            map (\<lambda>a. the (CreateRadAttributeByID dictionary (ra_id a) (ra_value a)))
              (rp_attributes p)\<rparr> = p"
    using wellFormed_resolved [OF wf] by simp
  with Initialise_ToBytes_decoded [OF c a dec, of draws spare] show ?thesis by simp
qed

lemma parseAttributes_past_end:
  "length bytes < lastIndex \<Longrightarrow> parseAttributes dictionary bytes spare lastIndex acc = Inl Panic"
  by (subst parseAttributes.simps) simp

lemma parseAttributes_malformed:
  assumes "malformedTail dictionary rest spare"
  shows "parseAttributes dictionary (pre @ rest) spare (length pre) acc = Inl Panic"
proof -
  from assms have ne: "rest \<noteq> []" by (simp add: malformedTail_def)
  show ?thesis
  proof (cases "length rest = 1")
    case True
    then show ?thesis by (subst parseAttributes.simps) simp
  next
    case False
    have "length rest \<noteq> 0" using ne by simp
    with False have l2: "2 \<le> length rest" by linarith
    let ?L = "unat (rest ! 1)"
    have i0: "(pre @ rest) ! length pre = rest ! 0" by (simp add: nth_append)
    have i1: "(pre @ rest) ! (length pre + 1) = rest ! 1" by (simp add: nth_append)
    have unf: "parseAttributes dictionary (pre @ rest) spare (length pre) acc =
        (case go_slice (pre @ rest) spare (length pre + 2) (length pre + ?L) of
           Inl e \<Rightarrow> Inl e
         | Inr attrValue \<Rightarrow>
             (case CreateRadAttributeByID dictionary (rest ! 0) attrValue of
                None \<Rightarrow> Inl (Error (AttributeNotFound (rest ! 0)))
              | Some tmpAttr \<Rightarrow>
                  parseAttributes dictionary (pre @ rest) spare (length pre + ?L) (acc @ [tmpAttr])))"
      apply (subst parseAttributes.simps)
      unfolding Let_def i0 i1 using l2 ne by simp
    from assms False consider (short) "?L < 2"
      | (cap) "length rest + length spare < ?L"
      | (res) "length rest < ?L" "?L \<le> length rest + length spare"
              "find (\<lambda>attr. da_code attr = rest ! 0) (dict_attributes dictionary) \<noteq> None"
      unfolding malformedTail_def by linarith
    then show ?thesis
    proof cases
      case short
      then have "go_slice (pre @ rest) spare (length pre + 2) (length pre + ?L) = Inl Panic"
        by (simp add: go_slice_def)
      with unf show ?thesis by simp
    next
      case cap
      then have "go_slice (pre @ rest) spare (length pre + 2) (length pre + ?L) = Inl Panic"
        by (simp add: go_slice_def)
      with unf show ?thesis by simp
    next
      case res
      from res(1,2) l2 obtain v where
        v: "go_slice (pre @ rest) spare (length pre + 2) (length pre + ?L) = Inr v"
        by (simp add: go_slice_def)
      from res(3) obtain x where x: "CreateRadAttributeByID dictionary (rest ! 0) v = Some x"
        by (auto simp: CreateRadAttributeByID_def)
      have "parseAttributes dictionary (pre @ rest) spare (length pre + ?L) (acc @ [x]) = Inl Panic"
        by (rule parseAttributes_past_end) (use res(1) in simp)
      with unf v x show ?thesis by simp
    qed
  qed
qed

text \<open>
  C10, as the code has it. Let the buffer start with a 20-byte header whose code byte is a
  known \<open>TypeCode\<close>, followed by the wire form of attributes that resolve in the dictionary,
  followed by bytes \<open>rest\<close> that do not start a well-tiled attribute (\<open>malformedTail\<close>).
  Then \<open>InitialiseRadiusPacketFromBytes\<close> panics.
\<close>

theorem Initialise_malformed_panics:
  assumes "length hdr = 20" and "typeCodeFromUint8 (hdr ! 0) \<noteq> None"
    and "list_all (decodableAttribute dictionary) as"
    and "malformedTail dictionary rest spare"
  shows "InitialiseRadiusPacketFromBytes dictionary (hdr @ concat (map toBytes as) @ rest) spare
           = Inl Panic"
proof -
  from assms(2) obtain c where c: "typeCodeFromUint8 (hdr ! 0) = Some c" by auto
  define body where "body = concat (map toBytes as)"
  have "parseAttributes dictionary (hdr @ body @ rest) spare (length hdr) []
          = parseAttributes dictionary (hdr @ body @ rest) spare (length hdr + length body)
              ([] @ map (\<lambda>a. the (CreateRadAttributeByID dictionary (ra_id a) (ra_value a))) as)"
    unfolding body_def by (rule parseAttributes_prefix [OF assms(3)])
  also have "\<dots> = parseAttributes dictionary ((hdr @ body) @ rest) spare (length (hdr @ body))
              ([] @ map (\<lambda>a. the (CreateRadAttributeByID dictionary (ra_id a) (ra_value a))) as)"
    by simp
  also have "\<dots> = Inl Panic"
    by (rule parseAttributes_malformed [OF assms(4)])
  finally have "parseAttributes dictionary (hdr @ body @ rest) spare 20 [] = Inl Panic"
    using assms(1) by simp
  then show ?thesis
    unfolding Initialise_header [OF assms(1) c] body_def by simp
qed

theorem Initialise_malformed_panics_witness:
  "InitialiseRadiusPacketFromBytes sampleDictionary
     ([1, 7, 0, 26] @ replicate 16 0
      @ concat (map toBytes [\<lparr>ra_id = 1, ra_name = ''User-Name'', ra_value = [97, 98]\<rparr>])
      @ [80, 1]) [] = Inl Panic"
proof -
  have a: "length ([1, 7, 0, 26] @ replicate 16 (0 :: byte)) = 20" by simp
  have b: "typeCodeFromUint8 (([1, 7, 0, 26] @ replicate 16 0) ! 0) \<noteq> None"
    by (simp add: typeCodeFromUint8_def)
  have c: "list_all (decodableAttribute sampleDictionary)
             [\<lparr>ra_id = 1, ra_name = ''User-Name'', ra_value = [97, 98]\<rparr>]"
    by (simp add: decodableAttribute_def CreateRadAttributeByID_def sampleDictionary_def)
  have d: "malformedTail sampleDictionary [80, 1] []"
    by (simp add: malformedTail_def)
  show ?thesis
    using Initialise_malformed_panics [OF a b c d] by simp
qed

text \<open>
  C10, as stated, fails: when an attribute before the malformed header has an id the
  dictionary does not know, or the code byte is not a known \<open>TypeCode\<close>, the decoder
  returns an error value and never reaches the malformed header.
\<close>

theorem Initialise_counterexample:
  "InitialiseRadiusPacketFromBytes sampleDictionary
     ([1, 7, 0, 24] @ replicate 16 0 @ [99, 2] @ [80, 0]) [] = Inl (Error (AttributeNotFound 99))
   \<and> InitialiseRadiusPacketFromBytes sampleDictionary
     ([0, 7, 0, 22] @ replicate 16 0 @ [80, 0]) [] = Inl (Error InvalidTypeCode)"
  by code_simp

text \<open>
  C1. For every well-formed packet \<open>P\<close> (\<open>wellFormedPacket\<close>: code among the fourteen known
  codes, 16-byte authenticator, every attribute with a value of at most 253 bytes and the
  name of the first dictionary entry with its id), \<open>ToBytes\<close> succeeds and leaves \<open>P\<close> as
  it is, and \<open>InitialiseRadiusPacketFromBytes\<close> on the bytes, whatever the spare capacity
  of the buffer, returns \<open>P\<close>: the same code, id, authenticator and attribute sequence.
\<close>

theorem Initialise_ToBytes_roundtrip:
  assumes "wellFormedPacket dictionary p"
  shows "\<exists>bs. ToBytes draws p = (p, Some bs)
            \<and> InitialiseRadiusPacketFromBytes dictionary bs spare = Inr p"
  by (rule Initialise_ToBytes [OF assms])

theorem Initialise_ToBytes_roundtrip_witness:
  "wellFormedPacket sampleDictionary
     \<lparr>rp_id = 50, rp_code = AccessRequest,
      rp_authenticator = [0, 25, 100, 56, 13, 0, 67, 34, 39, 12, 88, 153, 0, 1, 2, 3],
      rp_attributes = [\<lparr>ra_id = 1, ra_name = ''User-Name'',
                        ra_value = [116, 101, 115, 116, 105, 110, 103]\<rparr>]\<rparr>
   \<and> ToBytes (\<lambda>i. 0)
       \<lparr>rp_id = 50, rp_code = AccessRequest,
        rp_authenticator = [0, 25, 100, 56, 13, 0, 67, 34, 39, 12, 88, 153, 0, 1, 2, 3],
        rp_attributes = [\<lparr>ra_id = 1, ra_name = ''User-Name'',
                          ra_value = [116, 101, 115, 116, 105, 110, 103]\<rparr>]\<rparr>
     = (\<lparr>rp_id = 50, rp_code = AccessRequest,
         rp_authenticator = [0, 25, 100, 56, 13, 0, 67, 34, 39, 12, 88, 153, 0, 1, 2, 3],
         rp_attributes = [\<lparr>ra_id = 1, ra_name = ''User-Name'',
                           ra_value = [116, 101, 115, 116, 105, 110, 103]\<rparr>]\<rparr>,
        Some [1, 50, 0, 29, 0, 25, 100, 56, 13, 0, 67, 34, 39, 12, 88, 153, 0, 1, 2, 3,
              1, 9, 116, 101, 115, 116, 105, 110, 103])
   \<and> InitialiseRadiusPacketFromBytes sampleDictionary
        [1, 50, 0, 29, 0, 25, 100, 56, 13, 0, 67, 34, 39, 12, 88, 153, 0, 1, 2, 3,
         1, 9, 116, 101, 115, 116, 105, 110, 103] []
     = Inr \<lparr>rp_id = 50, rp_code = AccessRequest,
            rp_authenticator = [0, 25, 100, 56, 13, 0, 67, 34, 39, 12, 88, 153, 0, 1, 2, 3],
            rp_attributes = [\<lparr>ra_id = 1, ra_name = ''User-Name'',
                              ra_value = [116, 101, 115, 116, 105, 110, 103]\<rparr>]\<rparr>"
proof -
  let ?p = "\<lparr>rp_id = 50, rp_code = AccessRequest,
      rp_authenticator = [0, 25, 100, 56, 13, 0, 67, 34, 39, 12, 88, 153, 0, 1, 2, 3],
      rp_attributes = [\<lparr>ra_id = 1, ra_name = ''User-Name'',
                        ra_value = [116, 101, 115, 116, 105, 110, 103]\<rparr>]\<rparr>"
  have w: "wellFormedPacket sampleDictionary ?p"
    by (simp add: wellFormedPacket_def wellFormedAttribute_def dictionaryName_def
        sampleDictionary_def knownTypeCodes_def)
  have t: "ToBytes (\<lambda>i. 0) ?p = (?p,
        Some [1, 50, 0, 29, 0, 25, 100, 56, 13, 0, 67, 34, 39, 12, 88, 153, 0, 1, 2, 3,
              1, 9, 116, 101, 115, 116, 105, 110, 103])"
    by code_simp
  from Initialise_ToBytes_roundtrip [OF w, of "\<lambda>i. 0" "[]"] w t show ?thesis by simp
qed

lemma overrideFirst_again:
  "overrideFirst v as = Some as' \<Longrightarrow> overrideFirst w as' = overrideFirst w as"
proof (induction as arbitrary: as')
  case Nil
  then show ?case by simp
next
  case (Cons a as)
  show ?case
  proof (cases "ra_name a = ''Message-Authenticator''")
    case True
    with Cons.prems show ?thesis by auto
  next
    case False
    with Cons.prems obtain r where r: "overrideFirst v as = Some r" and as': "as' = a # r"
      by auto
    from Cons.IH [OF r] False show ?thesis by (simp add: as')
  qed
qed

lemma overrideFirst_find:
  "overrideFirst v as = Some as' \<Longrightarrow>
   map_option ra_value (find (\<lambda>attr. ra_name attr = ''Message-Authenticator'') as') = Some v"
proof (induction as arbitrary: as')
  case Nil
  then show ?case by simp
next
  case (Cons a as)
  show ?case
  proof (cases "ra_name a = ''Message-Authenticator''")
    case True
    with Cons.prems show ?thesis by auto
  next
    case False
    with Cons.prems obtain r where r: "overrideFirst v as = Some r" and as': "as' = a # r"
      by auto
    from Cons.IH [OF r] False show ?thesis by (simp add: as')
  qed
qed

lemma msgAuthAgrees_overrideFirst:
  "msgAuthAgrees dictionary as \<Longrightarrow>
   \<exists>as'. overrideFirst v as = Some as' \<and> msgAuthAgrees dictionary as'"
proof (induction as)
  case Nil
  then show ?case by simp
next
  case (Cons a as)
  show ?case
  proof (cases "ra_name a = ''Message-Authenticator''")
    case True
    with Cons.prems show ?thesis by simp
  next
    case False
    with Cons.prems have "msgAuthAgrees dictionary as" by simp
    from Cons.IH [OF this] obtain r where "overrideFirst v as = Some r"
      and "msgAuthAgrees dictionary r" by blast
    with False Cons.prems show ?thesis by simp
  qed
qed

lemma resolvableAttribute_override:
  "resolvableAttribute dictionary a \<Longrightarrow> length v \<le> 253 \<Longrightarrow>
   resolvableAttribute dictionary (a\<lparr>ra_value := v\<rparr>)"
  by (simp add: resolvableAttribute_def)

lemma overrideFirst_resolvable:
  "overrideFirst v as = Some as' \<Longrightarrow> length v \<le> 253 \<Longrightarrow>
   list_all (resolvableAttribute dictionary) as \<Longrightarrow>
   list_all (resolvableAttribute dictionary) as'"
proof (induction as arbitrary: as')
  case Nil
  then show ?case by simp
next
  case (Cons a as)
  show ?case
  proof (cases "ra_name a = ''Message-Authenticator''")
    case True
    with Cons.prems show ?thesis by (auto simp: resolvableAttribute_override)
  next
    case False
    with Cons.prems(1) obtain r where r: "overrideFirst v as = Some r" and as': "as' = a # r"
      by auto
    from Cons.IH [OF r Cons.prems(2)] Cons.prems(3) show ?thesis by (simp add: as')
  qed
qed

text \<open>
  What the decoder makes of a resolvable attribute is the attribute under its dictionary
  name; the wire form does not carry the name.
\<close>

lemma decoded_renamed:
  "resolvableAttribute dictionary a \<Longrightarrow>
   the (CreateRadAttributeByID dictionary (ra_id a) (ra_value a)) = renamed dictionary a"
  by (cases a)
     (auto simp: resolvableAttribute_def renamed_def CreateRadAttributeByID_dictionaryName)

lemma map_decoded_renamed:
  "list_all (resolvableAttribute dictionary) as \<Longrightarrow>
   map (\<lambda>a. the (CreateRadAttributeByID dictionary (ra_id a) (ra_value a))) as
     = map (renamed dictionary) as"
  by (induction as) (simp_all add: decoded_renamed)

lemma toBytes_renamed: "toBytes (renamed dictionary a) = toBytes a"
  by (simp add: toBytes_def renamed_def)

lemma concat_toBytes_renamed:
  "concat (map toBytes (map (renamed dictionary) as)) = concat (map toBytes as)"
  by (induction as) (simp_all add: toBytes_renamed)

lemma ra_name_renamed:
  "resolvableAttribute dictionary a \<Longrightarrow>
   (ra_name (renamed dictionary a) = n) = (dictionaryName dictionary (ra_id a) = Some n)"
  by (auto simp: resolvableAttribute_def renamed_def)

lemma renamed_override:
  "renamed dictionary (a\<lparr>ra_value := v\<rparr>) = (renamed dictionary a)\<lparr>ra_value := v\<rparr>"
  by (simp add: renamed_def)

lemma overrideFirst_renamed:
  "msgAuthAgrees dictionary as \<Longrightarrow> list_all (resolvableAttribute dictionary) as \<Longrightarrow>
   overrideFirst v as = Some as' \<Longrightarrow>
   overrideFirst v (map (renamed dictionary) as) = Some (map (renamed dictionary) as')"
proof (induction as arbitrary: as')
  case Nil
  then show ?case by simp
next
  case (Cons a as)
  from Cons.prems(2) have ra: "resolvableAttribute dictionary a"
    and rest: "list_all (resolvableAttribute dictionary) as" by simp_all
  show ?case
  proof (cases "ra_name a = ''Message-Authenticator''")
    case True
    with Cons.prems(1) have "dictionaryName dictionary (ra_id a) = Some ''Message-Authenticator''"
      by simp
    then have "ra_name (renamed dictionary a) = ''Message-Authenticator''"
      using ra_name_renamed [OF ra] by simp
    with True Cons.prems(3) show ?thesis by (auto simp: renamed_override)
  next
    case False
    with Cons.prems(1) have n: "dictionaryName dictionary (ra_id a) \<noteq> Some ''Message-Authenticator''"
      and ag: "msgAuthAgrees dictionary as" by simp_all
    from n have nn: "ra_name (renamed dictionary a) \<noteq> ''Message-Authenticator''"
      using ra_name_renamed [OF ra] by simp
    from False Cons.prems(3) obtain r where r: "overrideFirst v as = Some r" and as': "as' = a # r"
      by auto
    from Cons.IH [OF ag rest r] nn show ?thesis by (simp add: as')
  qed
qed

lemma length_createPacketAuthenticator: "length (createPacketAuthenticator draws) = 16"
  by (simp add: createPacketAuthenticator_def)

lemma ToBytes_fill:
  "rp_authenticator p = [] \<Longrightarrow>
   ToBytes draws p = ToBytes draws (p\<lparr>rp_authenticator := createPacketAuthenticator draws\<rparr>)"
  by (simp add: ToBytes_def length_createPacketAuthenticator)

text \<open>
  C2, as the code has it. For every packet with a code among the fourteen known codes, an
  authenticator of 16 bytes (or an empty one, which \<open>ToBytes\<close> replaces by 16 fresh bytes),
  attributes whose ids resolve in the dictionary and whose values have at most 253 bytes,
  and a \<open>Message-Authenticator\<close> attribute on whose place packet and dictionary agree
  (\<open>msgAuthAgrees\<close>): \<open>GenerateMessageAuthenticator\<close>, then \<open>ToBytes\<close>, then
  \<open>VerifyMessageAuthenticator\<close> with the same secret and dictionary returns no error,
  whatever the spare capacity of the buffer. The names of the other attributes need not be
  the ones the dictionary gives their ids. HMAC-MD5 is a parameter assumed to return 16
  bytes.
\<close>

theorem Generate_then_Verify:
  assumes code: "rp_code p \<in> set knownTypeCodes"
    and auth: "length (rp_authenticator p) = 16 \<or> rp_authenticator p = []"
    and res: "list_all (resolvableAttribute dictionary) (rp_attributes p)"
    and ma: "msgAuthAgrees dictionary (rp_attributes p)"
    and hm: "digest16 (hmac secret)"
  shows "generateSerializeVerify hmac draws dictionary p secret spare = Inr ()"
proof -
  let ?z = "replicate 16 (0 :: byte)"
  let ?R = "renamed dictionary"
  define q where "q = (if length (rp_authenticator p) = 0
                       then p\<lparr>rp_authenticator := createPacketAuthenticator draws\<rparr> else p)"
  have qa: "length (rp_authenticator q) = 16"
    using auth by (auto simp: q_def length_createPacketAuthenticator)
  have qc: "rp_code q = rp_code p" and qat: "rp_attributes q = rp_attributes p"
    by (simp_all add: q_def)
  from code obtain c where c: "typeCodeToUint8 (rp_code q) = Some c"
    using typeCodeToUint8_known [of "rp_code p"] by (auto simp: qc)
  from msgAuthAgrees_overrideFirst [OF ma, of ?z] obtain as1
    where as1: "overrideFirst ?z (rp_attributes p) = Some as1"
      and ag1: "msgAuthAgrees dictionary as1" by blast
  define p1 where "p1 = p\<lparr>rp_attributes := as1\<rparr>"
  define q1 where "q1 = q\<lparr>rp_attributes := as1\<rparr>"
  have o1: "OverrideMessageAuthenticator p ?z = (p1, None)"
    by (simp add: OverrideMessageAuthenticator_def as1 p1_def)
  have res1: "list_all (resolvableAttribute dictionary) as1"
    by (rule overrideFirst_resolvable [OF as1 _ res]) simp
  have t1': "ToBytes draws p1 = ToBytes draws q1"
  proof (cases "rp_authenticator p = []")
    case True
    then have e: "rp_authenticator p1 = []" by (simp add: p1_def)
    have "p1\<lparr>rp_authenticator := createPacketAuthenticator draws\<rparr> = q1"
      using True by (cases p) (simp add: p1_def q1_def q_def)
    with ToBytes_fill [OF e, of draws] show ?thesis by simp
  next
    case False
    then show ?thesis by (simp add: p1_def q1_def q_def)
  qed
  define b1 where
    "b1 = [c, rp_id q]
          @ packetLengthToBytes (of_nat (20 + length (concat (map toBytes as1))))
          @ rp_authenticator q @ concat (map toBytes as1)"
  have t1: "ToBytes draws q1 = (q1, Some b1)"
    using ToBytes_wellFormed [of q1 c draws] c qa by (simp add: q1_def b1_def)
  define h where "h = hmac secret b1"
  have lh: "length h = 16" using hm by (simp add: digest16_def h_def)
  from msgAuthAgrees_overrideFirst [OF ag1, of h] obtain as3
    where as3: "overrideFirst h as1 = Some as3"
      and ag3: "msgAuthAgrees dictionary as3" by blast
  define q3 where "q3 = q\<lparr>rp_attributes := as3\<rparr>"
  have o3: "OverrideMessageAuthenticator q1 h = (q3, None)"
    by (simp add: OverrideMessageAuthenticator_def as3 q1_def q3_def)
  have gen: "GenerateMessageAuthenticator hmac draws p secret = (q3, None)"
    by (simp add: GenerateMessageAuthenticator_def o1 t1' t1 o3 h_def [symmetric])
  have res3: "list_all (resolvableAttribute dictionary) as3"
    by (rule overrideFirst_resolvable [OF as3 _ res1]) (simp add: lh)
  have dec3: "list_all (decodableAttribute dictionary) (rp_attributes q3)"
    using res3 by (simp add: q3_def list_all_iff resolvableAttribute_iff)
  have c3: "typeCodeToUint8 (rp_code q3) = Some c" using c by (simp add: q3_def)
  have a3: "length (rp_authenticator q3) = 16" using qa by (simp add: q3_def)
  from Initialise_ToBytes_decoded [OF c3 a3 dec3, of draws spare] obtain b3
    where t3: "ToBytes draws q3 = (q3, Some b3)"
      and parse: "InitialiseRadiusPacketFromBytes dictionary b3 spare =
                    Inr (q\<lparr>rp_attributes := map ?R as3\<rparr>)"
    using map_decoded_renamed [OF res3] by (auto simp: q3_def)
  define d3 where "d3 = q\<lparr>rp_attributes := map ?R as3\<rparr>"
  have r3: "overrideFirst h (map ?R as1) = Some (map ?R as3)"
    by (rule overrideFirst_renamed [OF ag1 res1 as3])
  have m3: "MessageAuthenticator d3 = Some h"
    using overrideFirst_find [OF r3] by (simp add: MessageAuthenticator_def d3_def)
  have "overrideFirst ?z as1 = overrideFirst ?z (rp_attributes p)"
    by (rule overrideFirst_again [OF as1])
  then have z1: "overrideFirst ?z as1 = Some as1" using as1 by simp
  have "overrideFirst ?z (map ?R as3) = overrideFirst ?z (map ?R as1)"
    by (rule overrideFirst_again [OF r3])
  also have "\<dots> = Some (map ?R as1)"
    by (rule overrideFirst_renamed [OF ag1 res1 z1])
  finally have z3: "overrideFirst ?z (map ?R as3) = Some (map ?R as1)" .
  define d1 where "d1 = q\<lparr>rp_attributes := map ?R as1\<rparr>"
  have o4: "fst (OverrideMessageAuthenticator d3 ?z) = d1"
    by (simp add: OverrideMessageAuthenticator_def d3_def d1_def z3)
  have cc: "concat (map toBytes (rp_attributes d1)) = concat (map toBytes as1)"
    unfolding d1_def using concat_toBytes_renamed [of dictionary as1] by simp
  have t4: "ToBytes draws d1 = (d1, Some b1)"
    using ToBytes_wellFormed [of d1 c draws] c qa
    unfolding cc by (simp add: d1_def b1_def)
  have ver: "VerifyMessageAuthenticator hmac draws dictionary secret b3 spare = Inr ()"
    using parse by (simp add: VerifyMessageAuthenticator_def d3_def [symmetric] m3 o4 t4 h_def)
  show ?thesis
    by (simp add: generateSerializeVerify_def gen t3 ver)
qed

theorem Generate_then_Verify_witness:
  "generateSerializeVerify sampleHmac (\<lambda>i. i) vendorDictionary
     \<lparr>rp_id = 7, rp_code = AccessRequest, rp_authenticator = [],
      rp_attributes =
        [\<lparr>ra_id = 1, ra_name = ''Somevendor-Name'', ra_value = [97, 97, 97]\<rparr>,
         \<lparr>ra_id = 80, ra_name = ''Message-Authenticator'', ra_value = []\<rparr>]\<rparr>
     [115] [] = Inr ()"
proof -
  let ?p = "\<lparr>rp_id = 7, rp_code = AccessRequest, rp_authenticator = [],
      rp_attributes =
        [\<lparr>ra_id = 1, ra_name = ''Somevendor-Name'', ra_value = [97, 97, 97]\<rparr>,
         \<lparr>ra_id = 80, ra_name = ''Message-Authenticator'', ra_value = []\<rparr>]\<rparr>"
  have c: "rp_code ?p \<in> set knownTypeCodes"
    by (simp add: knownTypeCodes_def)
  have a: "length (rp_authenticator ?p) = 16 \<or> rp_authenticator ?p = []" by simp
  have w: "list_all (resolvableAttribute vendorDictionary) (rp_attributes ?p)"
    by (simp add: resolvableAttribute_def dictionaryName_def vendorDictionary_def)
  have m: "msgAuthAgrees vendorDictionary (rp_attributes ?p)"
    by (simp add: dictionaryName_def vendorDictionary_def)
  have h: "digest16 (sampleHmac [115])"
    by (simp add: digest16_def sampleHmac_def sampleDigest_def)
  show ?thesis
    by (rule Generate_then_Verify
        [where p = ?p and dictionary = vendorDictionary and hmac = sampleHmac
           and secret = "[115]", OF c a w m h])
qed

text \<open>
  C2, as stated, fails on packets that contain a \<open>Message-Authenticator\<close> attribute, have a
  known \<open>TypeCode\<close> and attributes that resolve in the dictionary:
  an attribute value of 254 bytes is written with the length byte \<open>uint8(256) = 0\<close>, and the
  decoder panics on it; in a dictionary where a vendor attribute comes first under the
  code 80, the decoder names the attribute after that entry and the verification finds no
  \<open>Message-Authenticator\<close>; an authenticator of 18 bytes shifts the attribute region, and
  the decoder reads its last two bytes as an attribute header.
\<close>

theorem Generate_then_Verify_counterexample:
  "generateSerializeVerify sampleHmac (\<lambda>i. i) sampleDictionary
     \<lparr>rp_id = 7, rp_code = AccessRequest, rp_authenticator = replicate 16 0,
      rp_attributes =
        [\<lparr>ra_id = 1, ra_name = ''User-Name'', ra_value = replicate 254 97\<rparr>,
         \<lparr>ra_id = 80, ra_name = ''Message-Authenticator'', ra_value = replicate 16 0\<rparr>]\<rparr>
     [115] [] = Inl Panic
   \<and> generateSerializeVerify sampleHmac (\<lambda>i. i) overlappingDictionary
     \<lparr>rp_id = 7, rp_code = AccessRequest, rp_authenticator = replicate 16 0,
      rp_attributes =
        [\<lparr>ra_id = 80, ra_name = ''Message-Authenticator'', ra_value = replicate 16 0\<rparr>]\<rparr>
     [115] [] = Inl (Error MsgAuthNotFound)
   \<and> generateSerializeVerify sampleHmac (\<lambda>i. i) sampleDictionary
     \<lparr>rp_id = 7, rp_code = AccessRequest, rp_authenticator = replicate 16 0 @ [1, 0],
      rp_attributes =
        [\<lparr>ra_id = 80, ra_name = ''Message-Authenticator'', ra_value = replicate 16 0\<rparr>]\<rparr>
     [115] [] = Inl Panic"
  by code_simp

end
